theory Spec2Isabelle
  imports Complex_Main "HOL-Library.AList" "HOL-Library.Log_Nat"
begin

section \<open>Numbers, errors and dictionaries of the Python program\<close>

text \<open>
  The two agents of the simulation, \<^verbatim>\<open>dispatcher.py\<close> and \<^verbatim>\<open>taxi.py\<close>, are embedded
  function by function. Python exceptions are values of \<open>py_error\<close>; a function that can
  raise returns \<open>py_error + 'a\<close>, and the state in which the exception leaves the
  object is not part of that result. A Python \<^verbatim>\<open>dict\<close> is an association list: lookup is
  \<open>map_of\<close>, assignment to a key is \<open>AList.update\<close> (in place when the key exists,
  appended otherwise, which is the insertion order of Python), \<^verbatim>\<open>del\<close> is
  \<open>AList.delete\<close>, and iteration runs over the list in order.
\<close>

datatype py_error =
  KeyError | IndexError | ZeroDivisionError | TypeError | AttributeError | OverflowError | ValueError

subsection \<open>Floating point\<close>

text \<open>
  A Python \<^verbatim>\<open>float\<close> is an IEEE 754 binary64 number. Its finite values are the reals
  \<open>m * 2\<^sup>e\<close> with \<open>\<bar>m\<bar> < 2\<^sup>5\<^sup>3\<close> and \<open>-1074 \<le> e \<le> 971\<close>; every arithmetic operation
  returns the exact result rounded to the nearest such value, ties to the even
  significand, and an infinity when the rounded result reaches \<open>2\<^sup>1\<^sup>0\<^sup>2\<^sup>4\<close>. The two signed
  zeros are one value: no operation of the program tells them apart.

  \<open>pow2 e\<close> is \<open>2\<^sup>e\<close>, \<open>flog2 x\<close> the binary exponent \<open>\<lfloor>log\<^sub>2 x\<rfloor>\<close> of a positive \<open>x\<close>,
  \<open>quantum x\<close> the exponent of the unit in the last place at \<open>x\<close>, \<open>round64 x\<close> the
  rounding of \<open>x\<close> before the overflow check, and \<open>rnd x\<close> the float that an operation
  with exact result \<open>x\<close> returns.
\<close>

datatype pyfloat = Fin real | PInf | NInf | NaN

definition pow2 :: "int \<Rightarrow> real" where
  "pow2 e = (if 0 \<le> e then 2 ^ nat e else 1 / 2 ^ nat (- e))"

definition flog2 :: "real \<Rightarrow> int" where
  "flog2 x = (if 1 \<le> x then bitlen \<lfloor>x\<rfloor> - 1 else - bitlen (\<lceil>1 / x\<rceil> - 1))"

definition round_even :: "real \<Rightarrow> int" where
  "round_even q =
     (let n = \<lfloor>q\<rfloor>; r = q - of_int n
      in if r < 1 / 2 then n else if 1 / 2 < r then n + 1 else if even n then n else n + 1)"

definition quantum :: "real \<Rightarrow> int" where
  "quantum x = max (flog2 \<bar>x\<bar> - 52) (- 1074)"

definition round64 :: "real \<Rightarrow> real" where
  "round64 x = of_int (round_even (x / pow2 (quantum x))) * pow2 (quantum x)"

definition rnd :: "real \<Rightarrow> pyfloat" where
  "rnd x =
     (let y = round64 x
      in if pow2 1024 \<le> y then PInf else if y \<le> - pow2 1024 then NInf else Fin y)"

text \<open>The finite floats are the reals that rounding leaves alone.\<close>

definition is_double :: "real \<Rightarrow> bool" where
  "is_double x = (rnd x = Fin x)"

text \<open>
  Numbers that the world hands over or that an object stores (travel times, traffic,
  account, income, edge weights) have type \<open>real\<close> and stand for finite floats; a
  result of the program's own arithmetic has type \<open>pyfloat\<close>. A Python \<^verbatim>\<open>int\<close> in such a
  place is identified with the float of the same value, which is exact, as is the
  arithmetic on it, as long as the magnitudes stay below \<open>2\<^sup>5\<^sup>3\<close>. Clock readings and
  call times are Python ints and have type \<open>int\<close>. A running sum that an object
  stores (the account of a taxi, the revenue of a dispatcher) is rounded by \<open>round64\<close>:
  the sums are followed as long as they stay within the finite floats.
\<close>

text \<open>\<^verbatim>\<open>a + b\<close>, \<^verbatim>\<open>-a\<close>, \<^verbatim>\<open>a - b\<close> and \<^verbatim>\<open>a * b\<close> on floats; none of them raises.\<close>

fun py_add :: "pyfloat \<Rightarrow> pyfloat \<Rightarrow> pyfloat" where
  "py_add (Fin x) (Fin y) = rnd (x + y)"
| "py_add NaN y = NaN"
| "py_add (Fin x) NaN = NaN"
| "py_add PInf NaN = NaN"
| "py_add NInf NaN = NaN"
| "py_add PInf NInf = NaN"
| "py_add NInf PInf = NaN"
| "py_add PInf (Fin y) = PInf"
| "py_add PInf PInf = PInf"
| "py_add (Fin x) PInf = PInf"
| "py_add NInf (Fin y) = NInf"
| "py_add NInf NInf = NInf"
| "py_add (Fin x) NInf = NInf"

fun py_neg :: "pyfloat \<Rightarrow> pyfloat" where
  "py_neg (Fin x) = Fin (- x)"
| "py_neg PInf = NInf"
| "py_neg NInf = PInf"
| "py_neg NaN = NaN"

definition py_sub :: "pyfloat \<Rightarrow> pyfloat \<Rightarrow> pyfloat" where
  "py_sub a b = py_add a (py_neg b)"

fun py_mult :: "pyfloat \<Rightarrow> pyfloat \<Rightarrow> pyfloat" where
  "py_mult NaN y = NaN"
| "py_mult (Fin x) NaN = NaN"
| "py_mult PInf NaN = NaN"
| "py_mult NInf NaN = NaN"
| "py_mult (Fin x) (Fin y) = rnd (x * y)"
| "py_mult (Fin x) PInf = (if 0 < x then PInf else if x < 0 then NInf else NaN)"
| "py_mult (Fin x) NInf = (if 0 < x then NInf else if x < 0 then PInf else NaN)"
| "py_mult PInf (Fin y) = (if 0 < y then PInf else if y < 0 then NInf else NaN)"
| "py_mult NInf (Fin y) = (if 0 < y then NInf else if y < 0 then PInf else NaN)"
| "py_mult PInf PInf = PInf"
| "py_mult PInf NInf = NInf"
| "py_mult NInf PInf = NInf"
| "py_mult NInf NInf = PInf"

text \<open>\<^verbatim>\<open>a / b\<close> on floats raises when \<open>b\<close> is zero and at no other operand.\<close>

fun py_div :: "pyfloat \<Rightarrow> pyfloat \<Rightarrow> py_error + pyfloat" where
  "py_div (Fin x) (Fin y) = (if y = 0 then Inl ZeroDivisionError else Inr (rnd (x / y)))"
| "py_div PInf (Fin y) =
     (if y = 0 then Inl ZeroDivisionError else if 0 < y then Inr PInf else Inr NInf)"
| "py_div NInf (Fin y) =
     (if y = 0 then Inl ZeroDivisionError else if 0 < y then Inr NInf else Inr PInf)"
| "py_div NaN (Fin y) = (if y = 0 then Inl ZeroDivisionError else Inr NaN)"
| "py_div (Fin x) PInf = Inr (Fin 0)"
| "py_div (Fin x) NInf = Inr (Fin 0)"
| "py_div x y = Inr NaN"

text \<open>\<^verbatim>\<open>a / b\<close> on two ints is the exact quotient, rounded once; a quotient beyond the
  floats raises.\<close>

definition py_int_div :: "int \<Rightarrow> int \<Rightarrow> py_error + pyfloat" where
  "py_int_div a b =
     (if b = 0 then Inl ZeroDivisionError
      else (case rnd (of_int a / of_int b) of
              Fin q \<Rightarrow> Inr (Fin q)
            | _ \<Rightarrow> Inl OverflowError))"

text \<open>\<^verbatim>\<open>float(n)\<close> of an int, as \<^verbatim>\<open>math.sqrt\<close> and the mixed operations apply it.\<close>

definition py_float :: "int \<Rightarrow> py_error + pyfloat" where
  "py_float n = (case rnd (of_int n) of Fin x \<Rightarrow> Inr (Fin x) | _ \<Rightarrow> Inl OverflowError)"

text \<open>\<^verbatim>\<open>math.sqrt\<close> of a float: the square root, rounded once.\<close>

fun py_sqrt :: "pyfloat \<Rightarrow> py_error + pyfloat" where
  "py_sqrt (Fin x) = (if x < 0 then Inl ValueError else Inr (rnd (sqrt x)))"
| "py_sqrt PInf = Inr PInf"
| "py_sqrt NInf = Inl ValueError"
| "py_sqrt NaN = Inr NaN"

fun py_less :: "pyfloat \<Rightarrow> pyfloat \<Rightarrow> bool" where
  "py_less (Fin x) (Fin y) = (x < y)"
| "py_less (Fin x) PInf = True"
| "py_less NInf (Fin y) = True"
| "py_less NInf PInf = True"
| "py_less x y = False"

text \<open>Python's \<^verbatim>\<open>min(a, b)\<close> keeps \<open>a\<close> unless \<open>b < a\<close>, and \<^verbatim>\<open>max(a, b)\<close> keeps \<open>a\<close>
  unless \<open>b > a\<close>.\<close>

definition py_min :: "pyfloat \<Rightarrow> pyfloat \<Rightarrow> pyfloat" where
  "py_min a b = (if py_less b a then b else a)"

definition py_max :: "pyfloat \<Rightarrow> pyfloat \<Rightarrow> pyfloat" where
  "py_max a b = (if py_less a b then b else a)"

subsection \<open>Lists, dicts and loops\<close>

text \<open>\<^verbatim>\<open>xs[i]\<close> on a Python list: a negative index counts from the end.\<close>

definition py_index :: "'a list \<Rightarrow> int \<Rightarrow> py_error + 'a" where
  "py_index xs i =
     (if 0 \<le> i \<and> i < int (length xs) then Inr (xs ! nat i)
      else if i < 0 \<and> - int (length xs) \<le> i then Inr (xs ! nat (int (length xs) + i))
      else Inl IndexError)"

text \<open>\<^verbatim>\<open>d[k]\<close> on a Python dict.\<close>

definition py_get :: "('k \<times> 'v) list \<Rightarrow> 'k \<Rightarrow> py_error + 'v" where
  "py_get al k = (case map_of al k of None \<Rightarrow> Inl KeyError | Some v \<Rightarrow> Inr v)"

text \<open>Sequencing of computations that may raise.\<close>

definition bindE :: "py_error + 'a \<Rightarrow> ('a \<Rightarrow> py_error + 'b) \<Rightarrow> py_error + 'b" where
  "bindE m f = (case m of Inl e \<Rightarrow> Inl e | Inr x \<Rightarrow> f x)"

text \<open>A \<^verbatim>\<open>for\<close> loop whose body may raise: the state is threaded through the keys in order.\<close>

fun forE :: "('k \<Rightarrow> 's \<Rightarrow> py_error + 's) \<Rightarrow> 'k list \<Rightarrow> 's \<Rightarrow> py_error + 's" where
  "forE body [] s = Inr s"
| "forE body (k # ks) s = (case body k s of Inl e \<Rightarrow> Inl e | Inr s' \<Rightarrow> forE body ks s')"

section \<open>Data model\<close>

type_synonym loc = "int \<times> int"

text \<open>
  The road map of an agent: node \<open>\<mapsto>\<close> (neighbour \<open>\<mapsto>\<close> (direction, distance)).
\<close>

type_synonym road_map = "(loc \<times> (loc \<times> (int \<times> real)) list) list"

text \<open>\<^verbatim>\<open>class FareEntry\<close> of dispatcher.py. \<open>taxi\<close> is \<open>-1\<close> while no taxi is allocated;
  \<open>bidders\<close> holds roster indices (results of \<^verbatim>\<open>list.index\<close>, hence naturals).\<close>

record FareEntry =
  origin :: loc
  destination :: loc
  calltime :: int
  price :: pyfloat
  taxi :: int
  bidders :: "nat list"

text \<open>\<^verbatim>\<open>class FareInfo\<close> of taxi.py; \<open>bid\<close> is \<open>-1\<close>, \<open>0\<close> or \<open>1\<close>.\<close>

record FareInfo =
  fi_destination :: loc
  fi_price :: pyfloat
  bid :: int
  allocated :: bool

text \<open>
  \<^verbatim>\<open>class Taxi\<close> of taxi.py. \<open>loc\<close> is the index of the node the taxi occupies (\<open>None\<close>
  before it has entered the world), \<open>passenger\<close> the destination of the fare aboard,
  \<open>path\<close> the attribute \<^verbatim>\<open>_path\<close>, which is a list or Python's \<^verbatim>\<open>None\<close>, and
  \<open>availableFares\<close> the dict keyed by (call time, origin x, origin y).
\<close>

record Taxi =
  number :: nat
  onDuty :: bool
  offDutyTime :: int
  maxFareWait :: int
  account :: real
  loc :: "loc option"
  direction :: int
  lastFareCompletionTime :: int
  income :: real
  passenger :: "loc option"
  tmap :: road_map
  path :: "loc list option"
  availableFares :: "((int \<times> int \<times> int) \<times> FareInfo) list"

text \<open>The property \<^verbatim>\<open>currentLocation\<close> and the method \<^verbatim>\<open>isHandlingFare\<close>.\<close>

definition currentLocation :: "Taxi \<Rightarrow> loc" where
  "currentLocation t = (case loc t of None \<Rightarrow> (-1, -1) | Some l \<Rightarrow> l)"

definition isHandlingFare :: "Taxi \<Rightarrow> bool" where
  "isHandlingFare t = (passenger t \<noteq> None)"

text \<open>
  The world is not part of the two source files: it is a parameter. A value of \<open>world\<close>
  is what the agents can observe of it during one call: its identity \<open>wid\<close> (Python
  compares worlds by identity), the clock, the queue of outstanding fares, its taxis (by
  reference, with \<open>deref\<close> giving the object behind a reference), and the answers of its
  methods \<^verbatim>\<open>getNode\<close>, \<^verbatim>\<open>travelTime\<close>, of the \<^verbatim>\<open>traffic\<close> attribute of a node and of the
  node methods \<^verbatim>\<open>dropoffFare\<close> and \<^verbatim>\<open>pickupFare\<close>. Nodes are identified with their index.
\<close>

record world =
  wid :: nat
  simTime :: int
  fareQ :: "loc list"
  wtaxis :: "nat list"
  deref :: "nat \<Rightarrow> Taxi"
  getNode :: "int \<Rightarrow> int \<Rightarrow> loc option"
  travelTime :: "loc option \<Rightarrow> loc option \<Rightarrow> real"
  traffic :: "loc \<Rightarrow> real"
  dropoffFare :: "loc \<Rightarrow> loc \<Rightarrow> int \<Rightarrow> bool"
  pickupFare :: "loc \<Rightarrow> int \<Rightarrow> loc option"

text \<open>The calls an agent makes on its world, in the order it makes them.\<close>

datatype world_call =
    BroadcastFare loc loc pyfloat
  | AllocateFare loc nat
  | CancelFare loc nat
  | TransmitFareBid loc nat

type_synonym fare_board = "(loc \<times> (loc \<times> (int \<times> FareEntry) list) list) list"

text \<open>\<^verbatim>\<open>class Dispatcher\<close>: \<open>parent\<close> is the identity of its world, \<open>taxis\<close> the roster of
  taxi references.\<close>

record Dispatcher =
  parent :: nat
  revenue :: real
  taxis :: "nat list"
  fareBoard :: fare_board
  smap :: "road_map option"
  completedRides :: nat
  abandonedRides :: nat

definition newDispatcher :: "nat \<Rightarrow> nat list \<Rightarrow> road_map option \<Rightarrow> Dispatcher" where
  "newDispatcher p ts m =
     \<lparr>parent = p, revenue = 0, taxis = ts, fareBoard = [], smap = m,
      completedRides = 0, abandonedRides = 0\<rparr>"

definition newFareEntry :: "loc \<Rightarrow> loc \<Rightarrow> int \<Rightarrow> FareEntry" where
  "newFareEntry o' dst t =
     \<lparr>origin = o', destination = dst, calltime = t, price = Fin 0, taxi = -1, bidders = []\<rparr>"

section \<open>The fare board\<close>

text \<open>\<^verbatim>\<open>self._fareBoard[origin][destination][time]\<close>, read.\<close>

definition getFare :: "fare_board \<Rightarrow> loc \<Rightarrow> loc \<Rightarrow> int \<Rightarrow> py_error + FareEntry" where
  "getFare b o' dst t =
     bindE (py_get b o') (\<lambda>dm. bindE (py_get dm dst) (\<lambda>tm. py_get tm t))"

text \<open>The same lookup as an option, for stating properties.\<close>

definition fare_at :: "fare_board \<Rightarrow> loc \<Rightarrow> loc \<Rightarrow> int \<Rightarrow> FareEntry option" where
  "fare_at b o' dst t =
     (case map_of b o' of None \<Rightarrow> None
      | Some dm \<Rightarrow> (case map_of dm dst of None \<Rightarrow> None | Some tm \<Rightarrow> map_of tm t))"

text \<open>An attribute assignment on the entry object stored at a key.\<close>

definition modFare :: "fare_board \<Rightarrow> loc \<Rightarrow> loc \<Rightarrow> int \<Rightarrow> (FareEntry \<Rightarrow> FareEntry) \<Rightarrow> fare_board" where
  "modFare b o' dst t g = AList.map_entry o' (AList.map_entry dst (AList.map_entry t g)) b"

section \<open>Dispatcher: runtime methods\<close>

definition addTaxi :: "Dispatcher \<Rightarrow> nat \<Rightarrow> Dispatcher" where
  "addTaxi d r = (if r \<notin> set (taxis d) then d\<lparr>taxis := taxis d @ [r]\<rparr> else d)"

text \<open>
  \<^verbatim>\<open>newFare\<close>. The counter \<^verbatim>\<open>_completedRides\<close> is incremented in the branch that creates
  a destination level under an existing origin, as in the source.
\<close>

definition newFare :: "Dispatcher \<Rightarrow> world \<Rightarrow> loc \<Rightarrow> loc \<Rightarrow> int \<Rightarrow> py_error + (Dispatcher \<times> world_call list)" where
  "newFare d w o' dst t =
     (if wid w = parent d then
        let fare = newFareEntry o' dst t;
            d1 = (case map_of (fareBoard d) o' of
                    Some dm \<Rightarrow>
                      (if map_of dm dst = None
                       then d\<lparr>fareBoard := AList.update o' (AList.update dst [] dm) (fareBoard d),
                              completedRides := completedRides d + 1\<rparr>
                       else d)
                  | None \<Rightarrow> d\<lparr>fareBoard := AList.update o' [(dst, [])] (fareBoard d)\<rparr>)
        in bindE (py_get (fareBoard d1) o') (\<lambda>dm.
           bindE (py_get dm dst) (\<lambda>tm.
             Inr (d1\<lparr>fareBoard := AList.update o' (AList.update dst (AList.update t fare tm) dm)
                                     (fareBoard d1)\<rparr>, [])))
      else Inr (d, []))"

text \<open>
  \<^verbatim>\<open>cancelFare\<close>. The taxi to notify is \<^verbatim>\<open>self._taxis[entry.taxi]\<close>, indexed as Python
  indexes a list; the two pruning tests run whenever origin and destination are present.
\<close>

definition cancelFare :: "Dispatcher \<Rightarrow> world \<Rightarrow> loc \<Rightarrow> loc \<Rightarrow> int \<Rightarrow> py_error + (Dispatcher \<times> world_call list)" where
  "cancelFare d w o' dst t =
     (if wid w = parent d \<and> map_of (fareBoard d) o' \<noteq> None then
        bindE (py_get (fareBoard d) o') (\<lambda>dm.
          if map_of dm dst \<noteq> None then
            bindE (py_get dm dst) (\<lambda>tm.
            bindE (if map_of tm t \<noteq> None then
                     bindE (py_get tm t) (\<lambda>f.
                     bindE (py_index (taxis d) (taxi f)) (\<lambda>r.
                       Inr (abandonedRides d + 1, AList.delete t tm, [CancelFare o' r])))
                   else Inr (abandonedRides d, tm, [])) (\<lambda>(ab, tm1, calls).
              let dm1 = AList.update dst tm1 dm;
                  dm2 = (if length tm1 = 0 then AList.delete dst dm1 else dm1);
                  b1 = AList.update o' dm2 (fareBoard d);
                  b2 = (if length dm2 = 0 then AList.delete o' b1 else b1)
              in Inr (d\<lparr>fareBoard := b2, abandonedRides := ab\<rparr>, calls)))
          else Inr (d, []))
      else Inr (d, []))"

text \<open>\<^verbatim>\<open>fareBid\<close>: the bidder's roster index is appended to the first unallocated fare
  found at the origin, scanning destinations and call times in dictionary order.\<close>

definition index_of :: "'a list \<Rightarrow> 'a \<Rightarrow> nat" where
  "index_of xs x = length (takeWhile (\<lambda>y. y \<noteq> x) xs)"

fun first_open_time :: "(int \<times> FareEntry) list \<Rightarrow> int option" where
  "first_open_time [] = None"
| "first_open_time ((t, f) # tm) = (if taxi f = -1 then Some t else first_open_time tm)"

fun first_open :: "(loc \<times> (int \<times> FareEntry) list) list \<Rightarrow> (loc \<times> int) option" where
  "first_open [] = None"
| "first_open ((dst, tm) # dm) =
     (case first_open_time tm of Some t \<Rightarrow> Some (dst, t) | None \<Rightarrow> first_open dm)"

definition fareBid :: "Dispatcher \<Rightarrow> loc \<Rightarrow> nat \<Rightarrow> Dispatcher" where
  "fareBid d o' r =
     (if r \<in> set (taxis d) then
        (case map_of (fareBoard d) o' of
           None \<Rightarrow> d
         | Some dm \<Rightarrow>
            (case first_open dm of
               None \<Rightarrow> d
             | Some (dst, t) \<Rightarrow>
                 d\<lparr>fareBoard := modFare (fareBoard d) o' dst t
                                  (\<lambda>f. f\<lparr>bidders := bidders f @ [index_of (taxis d) r]\<rparr>)\<rparr>))
      else d)"

definition recvPayment :: "Dispatcher \<Rightarrow> world \<Rightarrow> real \<Rightarrow> py_error + (Dispatcher \<times> world_call list)" where
  "recvPayment d w amount =
     (if parent d = wid w then Inr (d\<lparr>revenue := round64 (revenue d + amount)\<rparr>, []) else Inr (d, []))"

section \<open>Dispatcher: pricing\<close>

text \<open>\<^verbatim>\<open>_computeSupplyRatio\<close>: \<^verbatim>\<open>float('inf')\<close> when no taxi of the world is on duty,
  otherwise \<^verbatim>\<open>max(1, len(fareQ) / active)\<close>. The quotient of the two list lengths is
  rounded once; the lengths of Python lists are below \<open>2\<^sup>6\<^sup>3\<close>, so it does not overflow.\<close>

definition active_taxis :: "world \<Rightarrow> nat" where
  "active_taxis w = length (filter (\<lambda>r. onDuty (deref w r)) (wtaxis w))"

definition computeSupplyRatio :: "world \<Rightarrow> pyfloat" where
  "computeSupplyRatio w =
     (let total_active_fares = length (fareQ w);
          active = active_taxis w
      in if active = 0 then PInf
         else let supply_ratio = (if active > 0 then rnd (real total_active_fares / real active)
                                  else Fin 1)
              in py_max (Fin 1) supply_ratio)"

definition fare_travel_time :: "world \<Rightarrow> FareEntry \<Rightarrow> real" where
  "fare_travel_time w f =
     travelTime w (getNode w (fst (origin f)) (snd (origin f)))
                  (getNode w (fst (destination f)) (snd (destination f)))"

definition costFare :: "world \<Rightarrow> FareEntry \<Rightarrow> pyfloat" where
  "costFare w ride_request =
     (let travel_time = fare_travel_time w ride_request;
          initial_fare = 25;
          supply_ratio = computeSupplyRatio w;
          calculated_fare = py_mult (py_add (Fin initial_fare) (Fin travel_time)) supply_ratio;
          fare_ceiling = py_mult (Fin 10) (Fin travel_time)
      in py_min calculated_fare fare_ceiling)"

section \<open>Dispatcher: allocation\<close>

text \<open>
  The body of the loop of \<^verbatim>\<open>_allocateFare\<close> for one eligible bidder: the pickup time is
  replaced by the float \<^verbatim>\<open>0.1\<close> when it is exactly zero, \<^verbatim>\<open>1 / (1 + taxi.income)\<close> raises
  when the sum is zero, and the quotient of the int \<^verbatim>\<open>idle_duration\<close> by \<open>1000\<close> raises
  when it is beyond the floats. A decimal literal is the float nearest to it.
\<close>

definition pickup_time :: "world \<Rightarrow> loc \<Rightarrow> Taxi \<Rightarrow> real" where
  "pickup_time w o' t =
     travelTime w (getNode w (fst (currentLocation t)) (snd (currentLocation t)))
                  (getNode w (fst o') (snd o'))"

definition pickup_duration :: "world \<Rightarrow> loc \<Rightarrow> Taxi \<Rightarrow> real" where
  "pickup_duration w o' t = (let p = pickup_time w o' t in if p = 0 then round64 (1 / 10) else p)"

definition priority_score :: "world \<Rightarrow> loc \<Rightarrow> nat \<Rightarrow> Taxi \<Rightarrow> py_error + pyfloat" where
  "priority_score w o' nbidders t =
     (let pickup = pickup_duration w o' t;
          idle_duration = simTime w - lastFareCompletionTime t
      in bindE (py_div (Fin 1) (Fin pickup)) (\<lambda>distance_factor.
         bindE (py_div (Fin 1) (py_add (Fin 1) (Fin (income t)))) (\<lambda>earning_factor.
         bindE (py_int_div 1 (1 + int nbidders)) (\<lambda>competition_factor.
         bindE (py_int_div idle_duration 1000) (\<lambda>inactivity_factor.
           Inr (py_add (py_add (py_add (py_mult (rnd (4 / 10)) distance_factor)
                                       (py_mult (rnd (3 / 10)) earning_factor))
                               (py_mult (rnd (2 / 10)) inactivity_factor))
                       (py_mult (rnd (1 / 10)) competition_factor)))))))"

definition eligible :: "world \<Rightarrow> Dispatcher \<Rightarrow> nat \<Rightarrow> bool" where
  "eligible w d k =
     (k < length (taxis d) \<and> onDuty (deref w (taxis d ! k)) \<and> 0 < account (deref w (taxis d ! k)))"

text \<open>
  The loop over the bidders. The accumulator is the pair \<^verbatim>\<open>(selected_taxi,
  highest_priority)\<close>, which starts at \<^verbatim>\<open>(None, float('-inf'))\<close>.
\<close>

fun allocate_loop ::
  "world \<Rightarrow> Dispatcher \<Rightarrow> loc \<Rightarrow> nat \<Rightarrow> nat list \<Rightarrow> nat option \<times> pyfloat
     \<Rightarrow> py_error + (nat option \<times> pyfloat)" where
  "allocate_loop w d o' n [] acc = Inr acc"
| "allocate_loop w d o' n (taxi_number # rest) (selected_taxi, highest_priority) =
     (if taxi_number < length (taxis d) then
        let t = deref w (taxis d ! taxi_number) in
        if onDuty t \<and> 0 < account t then
          (case priority_score w o' n t of
             Inl e \<Rightarrow> Inl e
           | Inr s \<Rightarrow>
               if py_less highest_priority s
               then allocate_loop w d o' n rest (Some taxi_number, s)
               else allocate_loop w d o' n rest (selected_taxi, highest_priority))
        else allocate_loop w d o' n rest (selected_taxi, highest_priority)
      else allocate_loop w d o' n rest (selected_taxi, highest_priority))"

text \<open>\<^verbatim>\<open>_allocateFare\<close>. (The source also computes \<^verbatim>\<open>taxis_engaged\<close>, which it never
  uses.)\<close>

definition allocateFare :: "world \<Rightarrow> Dispatcher \<Rightarrow> loc \<Rightarrow> loc \<Rightarrow> int \<Rightarrow> py_error + (Dispatcher \<times> world_call list)" where
  "allocateFare w d o' dst t =
     bindE (getFare (fareBoard d) o' dst t) (\<lambda>f.
     bindE (allocate_loop w d o' (length (bidders f)) (bidders f) (None, NInf)) (\<lambda>(selected_taxi, hp).
       case selected_taxi of
         None \<Rightarrow> Inr (d, [])
       | Some k \<Rightarrow>
           bindE (py_index (taxis d) (int k)) (\<lambda>r.
             Inr (d\<lparr>fareBoard := modFare (fareBoard d) o' dst t (\<lambda>f. f\<lparr>taxi := int k\<rparr>)\<rparr>,
                  [AllocateFare o' r]))))"

section \<open>Dispatcher: the clock tick\<close>

text \<open>The body of the innermost loop of \<^verbatim>\<open>clockTick\<close>, for the fare at one key.\<close>

definition tickFare :: "world \<Rightarrow> loc \<Rightarrow> loc \<Rightarrow> int \<Rightarrow> Dispatcher \<times> world_call list
     \<Rightarrow> py_error + (Dispatcher \<times> world_call list)" where
  "tickFare w o' dst t s =
     (case s of (d, calls) \<Rightarrow>
      bindE (getFare (fareBoard d) o' dst t) (\<lambda>f.
        if price f = Fin 0 then
          let p = costFare w f
          in Inr (d\<lparr>fareBoard := modFare (fareBoard d) o' dst t (\<lambda>f. f\<lparr>price := p\<rparr>)\<rparr>,
                  calls @ [BroadcastFare o' dst p])
        else if taxi f < 0 \<and> 0 < length (bidders f) then
          bindE (allocateFare w d o' dst t) (\<lambda>(d', cs). Inr (d', calls @ cs))
        else Inr (d, calls)))"

text \<open>The loop over the destinations of one origin; call times are visited in sorted
  order.\<close>

definition tickDest :: "world \<Rightarrow> loc \<Rightarrow> loc \<Rightarrow> Dispatcher \<times> world_call list
     \<Rightarrow> py_error + (Dispatcher \<times> world_call list)" where
  "tickDest w o' dst s =
     bindE (py_get (fareBoard (fst s)) o') (\<lambda>dm.
     bindE (py_get dm dst) (\<lambda>tm.
       forE (tickFare w o' dst) (sort (map fst tm)) s))"

definition tickOrigin :: "world \<Rightarrow> loc \<Rightarrow> Dispatcher \<times> world_call list
     \<Rightarrow> py_error + (Dispatcher \<times> world_call list)" where
  "tickOrigin w o' s =
     bindE (py_get (fareBoard (fst s)) o') (\<lambda>dm. forE (tickDest w o') (map fst dm) s)"

definition clockTick :: "Dispatcher \<Rightarrow> world \<Rightarrow> py_error + (Dispatcher \<times> world_call list)" where
  "clockTick d w =
     (if parent d = wid w then forE (tickOrigin w) (map fst (fareBoard d)) (d, [])
      else Inr (d, []))"

section \<open>Taxi: messages from the dispatcher\<close>

text \<open>The four kinds of message of \<^verbatim>\<open>recvMsg\<close> with the keyword arguments each one
  reads; \<open>OTHER_MSG\<close> is any other message code.\<close>

datatype msg =
    FARE_ADVICE loc loc pyfloat
  | FARE_ALLOC loc loc
  | FARE_PAY real
  | FARE_CANCEL loc
  | OTHER_MSG

fun first_key :: "('k \<times> 'v \<Rightarrow> bool) \<Rightarrow> ('k \<times> 'v) list \<Rightarrow> 'k option" where
  "first_key P [] = None"
| "first_key P (kv # al) = (if P kv then Some (fst kv) else first_key P al)"

definition recvMsg :: "world \<Rightarrow> Taxi \<Rightarrow> msg \<Rightarrow> Taxi" where
  "recvMsg w t m =
     (case m of
        FARE_ADVICE org dst p \<Rightarrow>
          t\<lparr>availableFares :=
              AList.update (simTime w, fst org, snd org)
                \<lparr>fi_destination = dst, fi_price = p, bid = 0, allocated = False\<rparr>
                (availableFares t)\<rparr>
      | FARE_ALLOC org dst \<Rightarrow>
          (case first_key (\<lambda>((ct, x, y), info). x = fst org \<and> y = snd org \<and>
                             fst (fi_destination info) = fst dst \<and>
                             snd (fi_destination info) = snd dst) (availableFares t) of
             None \<Rightarrow> t
           | Some k \<Rightarrow>
               t\<lparr>availableFares :=
                   AList.map_entry k (\<lambda>info. info\<lparr>allocated := True\<rparr>) (availableFares t)\<rparr>)
      | FARE_PAY amount \<Rightarrow> t\<lparr>account := round64 (account t + amount)\<rparr>
      | FARE_CANCEL org \<Rightarrow>
          (case first_key (\<lambda>((ct, x, y), info). x = fst org \<and> y = snd org) (availableFares t) of
             None \<Rightarrow> t
           | Some k \<Rightarrow> t\<lparr>availableFares := AList.delete k (availableFares t)\<rparr>)
      | OTHER_MSG \<Rightarrow> t)"

section \<open>Taxi: the path planner\<close>

text \<open>
  \<^verbatim>\<open>_planPath\<close> keeps a binary heap of pairs (estimated total cost, node), the dict
  \<^verbatim>\<open>cost_from_start\<close>, which starts with \<^verbatim>\<open>float('inf')\<close> at every node of the map, and
  the dict \<^verbatim>\<open>path_trace\<close>. Python compares the pairs lexicographically, which is a total
  order as long as no estimate is \<^verbatim>\<open>nan\<close>, so which entry \<^verbatim>\<open>heappop\<close> returns depends only
  on the entries in the heap: the heap is a list, and \<open>heappop\<close> takes its least entry
  out. The dict \<^verbatim>\<open>estimated_total_cost\<close> is written and never read, so it is not part of
  the state; the estimate for the origin is computed before the loop all the same.

  The coordinates of a node are ints, so the sum of squares under the square root is
  exact and is converted to a float by \<^verbatim>\<open>math.sqrt\<close>.
\<close>

definition calculate_heuristic :: "loc \<Rightarrow> loc \<Rightarrow> py_error + pyfloat" where
  "calculate_heuristic a b = bindE (py_float ((fst a - fst b)\<^sup>2 + (snd a - snd b)\<^sup>2)) py_sqrt"

definition entry_less :: "pyfloat \<times> loc \<Rightarrow> pyfloat \<times> loc \<Rightarrow> bool" where
  "entry_less a b =
     (py_less (fst a) (fst b) \<or>
      (fst a = fst b \<and> fst a \<noteq> NaN \<and>
       (fst (snd a) < fst (snd b) \<or> (fst (snd a) = fst (snd b) \<and> snd (snd a) < snd (snd b)))))"

fun heap_min :: "(pyfloat \<times> loc) list \<Rightarrow> pyfloat \<times> loc" where
  "heap_min [] = (Fin 0, (0, 0))"
| "heap_min [e] = e"
| "heap_min (e # es) = (let m = heap_min es in if entry_less m e then m else e)"

definition heappop :: "(pyfloat \<times> loc) list \<Rightarrow> (pyfloat \<times> loc) \<times> (pyfloat \<times> loc) list" where
  "heappop h = (heap_min h, remove1 (heap_min h) h)"

type_synonym astar_state = "(pyfloat \<times> loc) list \<times> (loc \<rightharpoonup> pyfloat) \<times> (loc \<rightharpoonup> loc)"

text \<open>The body of the loop over the neighbours of \<open>current\<close>.\<close>

definition relax :: "road_map \<Rightarrow> loc \<Rightarrow> loc \<Rightarrow> loc \<times> (int \<times> real) \<Rightarrow> astar_state
     \<Rightarrow> py_error + astar_state" where
  "relax m dest current nb s =
     (case s of (heap, cost_from_start, path_trace) \<Rightarrow>
      let neighbor = fst nb; dist = snd (snd nb) in
      (case cost_from_start current of
         None \<Rightarrow> Inl KeyError
       | Some c \<Rightarrow>
           let new_cost = py_add c (Fin dist) in
           (case cost_from_start neighbor of
              None \<Rightarrow> Inl KeyError
            | Some old \<Rightarrow>
                if py_less new_cost old then
                  bindE (calculate_heuristic neighbor dest) (\<lambda>h.
                    Inr ((py_add new_cost h, neighbor) # heap,
                         cost_from_start(neighbor \<mapsto> new_cost),
                         path_trace(neighbor \<mapsto> current)))
                else Inr s)))"

text \<open>The inner \<^verbatim>\<open>while current_node in path_trace\<close> loop; it does not return when the
  trace has a cycle.\<close>

partial_function (option) build_path :: "(loc \<rightharpoonup> loc) \<Rightarrow> loc \<Rightarrow> loc list \<Rightarrow> loc list option" where
  "build_path path_trace current acc =
     (case path_trace current of
        None \<Rightarrow> Some acc
      | Some prev \<Rightarrow> build_path path_trace prev (acc @ [prev]))"

text \<open>The \<^verbatim>\<open>while to_explore\<close> loop. The outer \<open>option\<close> is \<open>None\<close> when the loop does
  not return; \<open>Inr None\<close> is the Python value \<^verbatim>\<open>None\<close>, the planner's "unreachable".\<close>

partial_function (option) astar_loop :: "road_map \<Rightarrow> loc \<Rightarrow> astar_state
     \<Rightarrow> (py_error + loc list option) option" where
  "astar_loop m dest s =
     (if fst s = [] then Some (Inr None)
      else
        let current = snd (fst (heappop (fst s)));
            s1 = (snd (heappop (fst s)), snd s)
        in if current = dest then
             (case build_path (snd (snd s)) current [current] of
                None \<Rightarrow> None
              | Some p \<Rightarrow> Some (Inr (Some (rev p))))
           else
             (case py_get m current of
                Inl e \<Rightarrow> Some (Inl e)
              | Inr nbrs \<Rightarrow>
                  (case forE (relax m dest current) nbrs s1 of
                     Inl e \<Rightarrow> Some (Inl e)
                   | Inr s2 \<Rightarrow> astar_loop m dest s2)))"

text \<open>\<^verbatim>\<open>cost_from_start\<close> as the planner sets it up.\<close>

definition init_costs :: "road_map \<Rightarrow> loc \<Rightarrow> (loc \<rightharpoonup> pyfloat)" where
  "init_costs m org = (map_of (map (\<lambda>(node, nbrs). (node, PInf)) m))(org \<mapsto> Fin 0)"

definition planPath :: "road_map \<Rightarrow> loc \<Rightarrow> loc \<Rightarrow> (py_error + loc list option) option" where
  "planPath m org dst =
     (if map_of m org = None \<or> map_of m dst = None then Some (Inr None)
      else if org = dst then Some (Inr (Some [org]))
      else
        (case calculate_heuristic org dst of
           Inl e \<Rightarrow> Some (Inl e)
         | Inr h \<Rightarrow> astar_loop m dst ([(Fin 0, org)], init_costs m org, Map.empty)))"

section \<open>Taxi: bidding and the clock tick\<close>

text \<open>\<^verbatim>\<open>_bidOnFare\<close>. Reading \<^verbatim>\<open>traffic\<close> off a node that does not exist raises, and so do
  the quotient of the int \<^verbatim>\<open>simTime - lastFareCompletionTime\<close> by \<open>1000\<close> when it is beyond
  the floats and \<^verbatim>\<open>1 / (1 + self.income)\<close> when the sum is zero. The int
  \<^verbatim>\<open>time_until_expiry\<close> is compared with a float by its exact value.\<close>

definition bidOnFare :: "world \<Rightarrow> Taxi \<Rightarrow> int \<Rightarrow> loc \<Rightarrow> loc \<Rightarrow> pyfloat \<Rightarrow> py_error + bool" where
  "bidOnFare w t time org dst p =
     (let present_time = simTime w in
      if passenger t \<noteq> None \<or> list_ex (\<lambda>kv. allocated (snd kv)) (availableFares t) then Inr False
      else
        let cur = currentLocation t;
            travel_to_origin = travelTime w (getNode w (fst cur) (snd cur)) (getNode w (fst org) (snd org));
            travel_to_destination = travelTime w (getNode w (fst org) (snd org)) (getNode w (fst dst) (snd dst))
        in (case getNode w (fst org) (snd org) of
              None \<Rightarrow> Inl AttributeError
            | Some node \<Rightarrow>
                let root_traffic = traffic w node in
                bindE (py_div (Fin root_traffic) (Fin 10)) (\<lambda>tenth.
                let traffic_multiplier = py_add (Fin 1) tenth;
                    adjusted_time_to_origin = py_mult (Fin travel_to_origin) traffic_multiplier;
                    adjusted_time_to_destination = py_mult (Fin travel_to_destination) traffic_multiplier;
                    adjusted_total_cost =
                      py_mult (py_add adjusted_time_to_origin adjusted_time_to_destination) (rnd (11 / 10));
                    minimum_profit_margin = rnd (15 / 10)
                in if py_less p (py_mult adjusted_total_cost minimum_profit_margin) then Inr False
                   else
                     let time_until_expiry = Fin (of_int (maxFareWait t - (present_time - time)))
                     in if py_less time_until_expiry adjusted_time_to_origin then Inr False
                        else
                          bindE (py_int_div (simTime w - lastFareCompletionTime t) 1000) (\<lambda>idle_time_score.
                          bindE (py_div (Fin 1) (py_add (Fin 1) (Fin (income t)))) (\<lambda>earning_score.
                          bindE (py_div adjusted_time_to_origin (Fin 30)) (\<lambda>thirtieth.
                            let proximity_score = py_max (Fin 0) (py_sub (Fin 1) thirtieth);
                                total_score =
                                  py_add (py_add (py_mult (rnd (4 / 10)) proximity_score)
                                                 (py_mult (rnd (3 / 10)) earning_score))
                                         (py_mult (rnd (3 / 10)) idle_time_score);
                                dynamic_threshold = (if income t < 100 then rnd (5 / 10) else rnd (7 / 10))
                            in Inr (py_less dynamic_threshold total_score)))))))"

text \<open>Computations of the taxi that may raise and, through the planner, may not return.\<close>

definition bindP :: "(py_error + 'a) option \<Rightarrow> ('a \<Rightarrow> (py_error + 'b) option) \<Rightarrow> (py_error + 'b) option" where
  "bindP c f = (case c of None \<Rightarrow> None | Some (Inl e) \<Rightarrow> Some (Inl e) | Some (Inr x) \<Rightarrow> f x)"

fun forP :: "('k \<Rightarrow> 's \<Rightarrow> (py_error + 's) option) \<Rightarrow> 'k list \<Rightarrow> 's \<Rightarrow> (py_error + 's) option" where
  "forP body [] s = Some (Inr s)"
| "forP body (k # ks) s = bindP (body k s) (forP body ks)"

text \<open>\<^verbatim>\<open>len(self._path)\<close>: a \<^verbatim>\<open>TypeError\<close> when the attribute holds \<^verbatim>\<open>None\<close>.\<close>

definition len_path :: "Taxi \<Rightarrow> py_error + nat" where
  "len_path t = (case path t of None \<Rightarrow> Inl TypeError | Some p \<Rightarrow> Inr (length p))"

text \<open>\<^verbatim>\<open>self._loc.index\<close>: an \<^verbatim>\<open>AttributeError\<close> when the taxi is at no node.\<close>

definition loc_index :: "Taxi \<Rightarrow> py_error + loc" where
  "loc_index t = (case loc t of None \<Rightarrow> Inl AttributeError | Some l \<Rightarrow> Inr l)"

definition liftE :: "py_error + 'a \<Rightarrow> (py_error + 'a) option" where
  "liftE r = Some r"

text \<open>\<^verbatim>\<open>self._path = self._planPath(a, b)\<close>: whatever the planner returns is stored, the
  value \<^verbatim>\<open>None\<close> included.\<close>

definition replan :: "Taxi \<Rightarrow> loc \<Rightarrow> loc \<Rightarrow> (py_error + Taxi) option" where
  "replan t a b = bindP (planPath (tmap t) a b) (\<lambda>r. Some (Inr (t\<lparr>path := r\<rparr>)))"

text \<open>The first part of \<^verbatim>\<open>clockTick\<close>: going off duty, and dropping the passenger off
  when the path is used up.\<close>

definition tick_arrival :: "world \<Rightarrow> Taxi \<Rightarrow> (py_error + Taxi) option" where
  "tick_arrival w t0 =
     (let t = (if account t0 \<le> 0 \<and> passenger t0 = None
               then t0\<lparr>onDuty := False, offDutyTime := simTime w\<rparr> else t0)
      in bindP (liftE (len_path t)) (\<lambda>n.
           if n = 0 then
             (case passenger t of
                None \<Rightarrow> Some (Inr t)
              | Some pdst \<Rightarrow>
                  bindP (liftE (loc_index t)) (\<lambda>l.
                    if dropoffFare w l pdst (direction t) then Some (Inr (t\<lparr>passenger := None\<rparr>))
                    else if pdst \<noteq> l then replan t l pdst
                    else Some (Inr t)))
           else Some (Inr t)))"

text \<open>The body of the loop over the known fares. The state is the taxi, the list
  \<^verbatim>\<open>faresToRemove\<close> and the calls made on the world so far.\<close>

definition tick_known_fare :: "world \<Rightarrow> (int \<times> int \<times> int) \<times> FareInfo
     \<Rightarrow> Taxi \<times> (int \<times> int \<times> int) list \<times> world_call list
     \<Rightarrow> (py_error + (Taxi \<times> (int \<times> int \<times> int) list \<times> world_call list)) option" where
  "tick_known_fare w fare s =
     (case s of (t, faresToRemove, calls) \<Rightarrow>
      let key = fst fare; info = snd fare;
          org = (fst (snd key), snd (snd key))
      in bindP (liftE (len_path t)) (\<lambda>n.
           if n = 0 \<and> allocated info \<and> passenger t = None then
             bindP (liftE (loc_index t)) (\<lambda>l.
               if fst l = fst org \<and> snd l = snd org then
                 let t1 = t\<lparr>passenger := pickupFare w l (direction t)\<rparr>
                 in (case passenger t1 of
                       None \<Rightarrow> Some (Inr (t1, faresToRemove @ [key], calls))
                     | Some pdst \<Rightarrow>
                         bindP (replan t1 l pdst) (\<lambda>t2. Some (Inr (t2, faresToRemove @ [key], calls))))
               else bindP (replan t l org) (\<lambda>t2. Some (Inr (t2, faresToRemove, calls))))
           else if maxFareWait t < simTime w - fst key then Some (Inr (t, faresToRemove @ [key], calls))
           else if bid info = 0 then
             bindP (liftE (bidOnFare w t (fst key) org (fi_destination info) (fi_price info))) (\<lambda>b.
               if b then
                 Some (Inr (t\<lparr>availableFares :=
                               AList.map_entry key (\<lambda>i. i\<lparr>bid := 1\<rparr>) (availableFares t)\<rparr>,
                            faresToRemove, calls @ [TransmitFareBid org (number t)]))
               else
                 Some (Inr (t\<lparr>availableFares :=
                               AList.map_entry key (\<lambda>i. i\<lparr>bid := -1\<rparr>) (availableFares t)\<rparr>,
                            faresToRemove, calls)))
           else Some (Inr s)))"

text \<open>\<^verbatim>\<open>clockTick\<close> of the taxi.\<close>

definition taxi_clockTick :: "world \<Rightarrow> Taxi \<Rightarrow> (py_error + (Taxi \<times> world_call list)) option" where
  "taxi_clockTick w t0 =
     bindP (tick_arrival w t0) (\<lambda>t1.
     bindP (forP (tick_known_fare w) (availableFares t1) (t1, [], [])) (\<lambda>(t2, faresToRemove, calls).
       let t3 = t2\<lparr>availableFares := fold AList.delete faresToRemove (availableFares t2)\<rparr>
       in Some (Inr (t3\<lparr>account := round64 (account t3 - 1)\<rparr>, calls))))"

section \<open>Vocabulary of the properties\<close>

text \<open>A fare board is a dict of dicts of dicts: at every level the keys are distinct.\<close>

definition board_ok :: "fare_board \<Rightarrow> bool" where
  "board_ok b =
     (distinct (map fst b) \<and>
      list_all (\<lambda>(o', dm). distinct (map fst dm) \<and>
                 list_all (\<lambda>(dst, tm). distinct (map fst tm)) dm) b)"

text \<open>
  What one tick of the dispatcher does to one fare \<open>f\<close> and which call on the world it
  makes for it. An unpriced fare gets its price and is broadcast; a priced fare without
  a taxi and with bidders gets the taxi that the loop of \<^verbatim>\<open>_allocateFare\<close> selects, if it
  selects one, and that taxi is notified; any other fare is left as it is.
\<close>

definition winner :: "world \<Rightarrow> Dispatcher \<Rightarrow> loc \<Rightarrow> FareEntry \<Rightarrow> nat option" where
  "winner w d o' f =
     (case allocate_loop w d o' (length (bidders f)) (bidders f) (None, NInf) of
        Inl e \<Rightarrow> None
      | Inr acc \<Rightarrow> fst acc)"

definition fare_after_tick :: "world \<Rightarrow> Dispatcher \<Rightarrow> loc \<Rightarrow> FareEntry \<Rightarrow> FareEntry" where
  "fare_after_tick w d o' f =
     (if price f = Fin 0 then f\<lparr>price := costFare w f\<rparr>
      else if taxi f < 0 \<and> bidders f \<noteq> [] then
        (case winner w d o' f of None \<Rightarrow> f | Some k \<Rightarrow> f\<lparr>taxi := int k\<rparr>)
      else f)"

definition calls_after_tick :: "world \<Rightarrow> Dispatcher \<Rightarrow> loc \<Rightarrow> loc \<Rightarrow> FareEntry \<Rightarrow> world_call list" where
  "calls_after_tick w d o' dst f =
     (if price f = Fin 0 then [BroadcastFare o' dst (costFare w f)]
      else if taxi f < 0 \<and> bidders f \<noteq> [] then
        (case winner w d o' f of None \<Rightarrow> [] | Some k \<Rightarrow> [AllocateFare o' (taxis d ! k)])
      else [])"

text \<open>The allocation loop returned for \<open>f\<close>, where the tick ran it.\<close>

definition loop_returned :: "world \<Rightarrow> Dispatcher \<Rightarrow> loc \<Rightarrow> FareEntry \<Rightarrow> bool" where
  "loop_returned w d o' f =
     (price f \<noteq> Fin 0 \<and> taxi f < 0 \<and> bidders f \<noteq> [] \<longrightarrow>
      \<not> isl (allocate_loop w d o' (length (bidders f)) (bidders f) (None, NInf)))"

text \<open>The state of the loops of the tick, before and after the fare at one key is
  visited, and what a step that visits another key preserves.\<close>

definition untouched :: "loc \<Rightarrow> loc \<Rightarrow> int \<Rightarrow> Dispatcher \<times> world_call list \<Rightarrow> Dispatcher \<times> world_call list \<Rightarrow> bool" where
  "untouched o' dst t s s' =
     (board_ok (fareBoard (fst s')) = board_ok (fareBoard (fst s)) \<and>
      taxis (fst s') = taxis (fst s) \<and> set (snd s) \<subseteq> set (snd s') \<and>
      fare_at (fareBoard (fst s')) o' dst t = fare_at (fareBoard (fst s)) o' dst t)"

definition pre_tick :: "Dispatcher \<Rightarrow> loc \<Rightarrow> loc \<Rightarrow> int \<Rightarrow> FareEntry \<Rightarrow> Dispatcher \<times> world_call list \<Rightarrow> bool" where
  "pre_tick d o' dst t f s =
     (board_ok (fareBoard (fst s)) \<and> taxis (fst s) = taxis d \<and>
      fare_at (fareBoard (fst s)) o' dst t = Some f)"

definition post_tick :: "world \<Rightarrow> Dispatcher \<Rightarrow> loc \<Rightarrow> loc \<Rightarrow> int \<Rightarrow> FareEntry \<Rightarrow> Dispatcher \<times> world_call list \<Rightarrow> bool" where
  "post_tick w d o' dst t f s =
     (board_ok (fareBoard (fst s)) \<and> taxis (fst s) = taxis d \<and>
      fare_at (fareBoard (fst s)) o' dst t = Some (fare_after_tick w d o' f) \<and>
      set (calls_after_tick w d o' dst f) \<subseteq> set (snd s) \<and> loop_returned w d o' f)"

text \<open>A run of ticks, one world snapshot per tick, and what no tick changes.\<close>

fun ticks :: "Dispatcher \<Rightarrow> world list \<Rightarrow> py_error + Dispatcher" where
  "ticks d [] = Inr d"
| "ticks d (w # ws) = (case clockTick d w of Inl e \<Rightarrow> Inl e | Inr (d', calls) \<Rightarrow> ticks d' ws)"

definition same_frame :: "Dispatcher \<Rightarrow> Dispatcher \<times> world_call list \<Rightarrow> bool" where
  "same_frame d s =
     (board_ok (fareBoard (fst s)) = board_ok (fareBoard d) \<and> parent (fst s) = parent d \<and>
      taxis (fst s) = taxis d)"

text \<open>The keys of a fare board, level by level; a tick of the dispatcher leaves them as
  they are.\<close>

definition shape :: "fare_board \<Rightarrow> (loc \<times> (loc \<times> int list) list) list" where
  "shape b = map (\<lambda>(o', dm). (o', map (\<lambda>(dst, tm). (dst, map fst tm)) dm)) b"

definition times_of :: "fare_board \<Rightarrow> loc \<Rightarrow> loc \<Rightarrow> int list option" where
  "times_of b o' dst =
     (case map_of b o' of None \<Rightarrow> None | Some dm \<Rightarrow> map_option (map fst) (map_of dm dst))"

definition dests_of :: "fare_board \<Rightarrow> loc \<Rightarrow> loc list option" where
  "dests_of b o' = map_option (map fst) (map_of b o')"

definition tick_frame :: "fare_board \<Rightarrow> nat list \<Rightarrow> Dispatcher \<times> world_call list \<Rightarrow> bool" where
  "tick_frame b roster s = (shape (fareBoard (fst s)) = shape b \<and> taxis (fst s) = roster)"

text \<open>The two operations of the tick that can raise are \<^verbatim>\<open>1 / (1 + taxi.income)\<close>, when
  the sum is zero, and \<^verbatim>\<open>idle_duration / 1000\<close>, when the quotient is beyond the floats.
  \<open>scores_ok\<close> excludes both for the taxis of a roster.\<close>

fun is_fin :: "pyfloat \<Rightarrow> bool" where
  "is_fin (Fin x) = True"
| "is_fin x = False"

definition scores_ok :: "world \<Rightarrow> nat list \<Rightarrow> bool" where
  "scores_ok w roster =
     list_all (\<lambda>r. py_add (Fin 1) (Fin (income (deref w r))) \<noteq> Fin 0 \<and>
                    is_fin (rnd (of_int (simTime w - lastFareCompletionTime (deref w r)) / 1000)))
       roster"

text \<open>
  The score of the bidder with roster index \<open>k\<close> (not a number when its computation
  raises), and the pair \<^verbatim>\<open>(selected_taxi, highest_priority)\<close> of the allocation loop after
  the eligible bidders \<open>E\<close>: the selected bidder is the first one whose score is above
  \<^verbatim>\<open>-inf\<close> and that no later bidder exceeds.
\<close>

definition bidder_score :: "world \<Rightarrow> Dispatcher \<Rightarrow> loc \<Rightarrow> nat \<Rightarrow> nat \<Rightarrow> pyfloat" where
  "bidder_score w d o' n k =
     (case priority_score w o' n (deref w (taxis d ! k)) of Inl e \<Rightarrow> NaN | Inr s \<Rightarrow> s)"

definition leads :: "(nat \<Rightarrow> pyfloat) \<Rightarrow> nat list \<Rightarrow> nat option \<times> pyfloat \<Rightarrow> bool" where
  "leads sc E acc =
     (case fst acc of
        None \<Rightarrow> snd acc = NInf \<and> list_all (\<lambda>j. \<not> py_less NInf (sc j)) E
      | Some k \<Rightarrow> snd acc = sc k \<and> py_less NInf (sc k) \<and>
                 (\<exists>xs ys. E = xs @ k # ys \<and>
                           list_all (\<lambda>j. py_less (sc j) (sc k) \<or> sc j = NaN) xs \<and>
                           list_all (\<lambda>j. \<not> py_less (sc k) (sc j)) ys))"



section \<open>Concrete states\<close>

text \<open>A taxi on duty at node \<open>(0, 0)\<close>, a world with two such taxis (references \<open>7\<close> and
  \<open>9\<close>) in which a trip between two different nodes takes \<open>5\<close> and a trip from a node to
  itself \<open>0\<close>, and a dispatcher of that world before and after the request of a fare
  from \<open>(0, 0)\<close> to \<open>(3, 4)\<close> at time \<open>0\<close>.\<close>

definition ex_taxi :: Taxi where
  "ex_taxi = \<lparr>number = 0, onDuty = True, offDutyTime = 0, maxFareWait = 50, account = 256,
     loc = Some (0, 0), direction = 0, lastFareCompletionTime = 0, income = 0,
     passenger = None, tmap = [], path = Some [], availableFares = []\<rparr>"

definition ex_world :: world where
  "ex_world = \<lparr>wid = 1, simTime = 10, fareQ = [(0, 0)], wtaxis = [7, 9],
     deref = (\<lambda>r. ex_taxi\<lparr>number := r\<rparr>),
     getNode = (\<lambda>x y. Some (x, y)),
     travelTime = (\<lambda>a b. if a = b then 0 else 5),
     traffic = (\<lambda>n. 0),
     dropoffFare = (\<lambda>n p dir. False),
     pickupFare = (\<lambda>n dir. None)\<rparr>"

definition ex_d0 :: Dispatcher where
  "ex_d0 = newDispatcher 1 [7, 9] None"

definition ex_d1 :: Dispatcher where
  "ex_d1 = ex_d0\<lparr>fareBoard := [((0, 0), [((3, 4), [(0, newFareEntry (0, 0) (3, 4) 0)])])]\<rparr>"

definition ex_dAA :: Dispatcher where
  "ex_dAA = ex_d0\<lparr>fareBoard := [((0, 0), [((0, 0), [(0, newFareEntry (0, 0) (0, 0) 0)])])]\<rparr>"

definition ex_dAA_bid :: Dispatcher where
  "ex_dAA_bid = ex_d0\<lparr>fareBoard :=
     [((0, 0), [((0, 0), [(0, (newFareEntry (0, 0) (0, 0) 0)\<lparr>bidders := [1]\<rparr>)])])]\<rparr>"

definition ex_d2 :: Dispatcher where
  "ex_d2 = ex_d0\<lparr>fareBoard := [((0, 0), [((3, 4), [(0, (newFareEntry (0, 0) (3, 4) 0)\<lparr>price := Fin 30\<rparr>)])])]\<rparr>"

definition ex_d3 :: Dispatcher where
  "ex_d3 = ex_d0\<lparr>fareBoard :=
     [((0, 0), [((3, 4), [(0, (newFareEntry (0, 0) (3, 4) 0)\<lparr>price := Fin 30, bidders := [1, 0]\<rparr>)])])]\<rparr>"

definition ex_d4 :: Dispatcher where
  "ex_d4 = ex_d0\<lparr>fareBoard :=
     [((0, 0), [((3, 4), [(0, (newFareEntry (0, 0) (3, 4) 0)\<lparr>price := Fin 30, taxi := 1, bidders := [1, 0]\<rparr>)])])]\<rparr>"



text \<open>The world with seven outstanding fares, three taxis on duty and trips that take
  \<open>26\<close>: the supply ratio \<open>7 / 3\<close> and the price are rounded. The world while every taxi
  is off duty. And the world at time \<open>2000\<close> with taxi 7 one unit away from \<open>(0, 0)\<close> and
  idle for \<open>500\<close>, taxi 9 four units away and idle for \<open>2000\<close>: in exact arithmetic both
  would score \<open>5 / 6\<close>.\<close>

definition ex_world_busy :: world where
  "ex_world_busy = ex_world\<lparr>
     fareQ := [(0, 0), (1, 0), (2, 0), (3, 0), (4, 0), (5, 0), (6, 0)],
     wtaxis := [7, 9, 11],
     travelTime := (\<lambda>a b. if a = b then 0 else 26)\<rparr>"

definition ex_d2_busy :: Dispatcher where
  "ex_d2_busy = ex_d0\<lparr>fareBoard :=
     [((0, 0), [((3, 4), [(0, (newFareEntry (0, 0) (3, 4) 0)\<lparr>price := Fin (8373880557142017 / 2 ^ 46)\<rparr>)])])]\<rparr>"

definition ex_world_off :: world where
  "ex_world_off = ex_world\<lparr>deref := (\<lambda>r. ex_taxi\<lparr>number := r, onDuty := False\<rparr>)\<rparr>"


text \<open>A two-node map, a taxi at \<open>(0, 0)\<close> carrying a passenger bound for \<open>(5, 5)\<close>, which
  is not on the map, and a taxi that has been allocated a fare waiting at \<open>(5, 5)\<close>.\<close>

definition ex_map :: road_map where
  "ex_map = [((0, 0), [((0, 1), (0, 1))]), ((0, 1), [((0, 0), (2, 1))])]"

definition ex_carrying :: Taxi where
  "ex_carrying = ex_taxi\<lparr>passenger := Some (5, 5), tmap := ex_map\<rparr>"

definition ex_allocated :: Taxi where
  "ex_allocated = ex_taxi\<lparr>tmap := ex_map,
     availableFares := [((3, 5, 5), \<lparr>fi_destination = (0, 1), fi_price = Fin 30, bid = 1, allocated = True\<rparr>)]\<rparr>"

section \<open>Vocabulary of the path planner\<close>


definition weight :: "road_map \<Rightarrow> loc \<Rightarrow> loc \<Rightarrow> real" where
  "weight m u v =
     (case map_of m u of
        None \<Rightarrow> 0
      | Some nbrs \<Rightarrow> (case map_of nbrs v of None \<Rightarrow> 0 | Some dw \<Rightarrow> snd dw))"

definition is_edge :: "road_map \<Rightarrow> loc \<Rightarrow> loc \<Rightarrow> bool" where
  "is_edge m u v = (case map_of m u of None \<Rightarrow> False | Some nbrs \<Rightarrow> map_of nbrs v \<noteq> None)"

fun is_path :: "road_map \<Rightarrow> loc list \<Rightarrow> bool" where
  "is_path m [] = False"
| "is_path m [v] = (map_of m v \<noteq> None)"
| "is_path m (u # v # p) = (is_edge m u v \<and> is_path m (v # p))"

fun path_cost :: "road_map \<Rightarrow> loc list \<Rightarrow> real" where
  "path_cost m (u # v # p) = weight m u v + path_cost m (v # p)"
| "path_cost m p = 0"

definition route :: "road_map \<Rightarrow> loc \<Rightarrow> loc \<Rightarrow> loc list \<Rightarrow> bool" where
  "route m a b p = (is_path m p \<and> hd p = a \<and> last p = b)"

text \<open>The straight-line distance between two nodes, as a real number.\<close>

definition straight_line :: "loc \<Rightarrow> loc \<Rightarrow> real" where
  "straight_line a b = sqrt ((of_int (fst a - fst b))\<^sup>2 + (of_int (snd a - snd b))\<^sup>2)"

text \<open>The map is a dict of dicts (no neighbour is listed twice), every neighbour is a
  node of the map, and no edge is shorter than the straight line between its ends.\<close>

definition map_ok :: "road_map \<Rightarrow> bool" where
  "map_ok m =
     list_all (\<lambda>(u, nbrs). distinct (map fst nbrs) \<and>
                 list_all (\<lambda>(v, dw). map_of m v \<noteq> None \<and> straight_line u v \<le> snd dw) nbrs) m"


definition coords_ok :: "road_map \<Rightarrow> bool" where
  "coords_ok m = list_all (\<lambda>(u, nbrs). \<bar>fst u\<bar> < 2 ^ 25 \<and> \<bar>snd u\<bar> < 2 ^ 25) m"























definition ex_round :: road_map where
  "ex_round = [((0, 0), [((1, 0), (0, 1)), ((2, 0), (1, round64 (22 / 10)))]),
               ((1, 0), [((2, 0), (2, round64 (12 / 10)))]),
               ((2, 0), [])]"

section \<open>Rounding\<close>

lemma pow2_powr: "pow2 e = 2 powr real_of_int e"
proof (cases "0 \<le> e")
  case True
  then show ?thesis by (simp add: pow2_def powr_realpow[symmetric])
next
  case False
  then have "2 powr real_of_int e = 1 / 2 powr real_of_int (- e)"
    by (simp add: powr_minus divide_inverse)
  also have "\<dots> = 1 / 2 ^ nat (- e)" using False by (simp add: powr_realpow[symmetric])
  finally show ?thesis using False by (simp add: pow2_def)
qed

lemma pow2_pos: "0 < pow2 e"
  by (simp add: pow2_powr)

lemma pow2_add: "pow2 (a + b) = pow2 a * pow2 b"
  by (simp add: pow2_powr powr_add)

lemma pow2_diff: "pow2 (a - b) = pow2 a / pow2 b"
  by (simp add: pow2_powr powr_diff)

lemma pow2_mono: "a \<le> b \<Longrightarrow> pow2 a \<le> pow2 b"
  by (simp add: pow2_powr)

lemma pow2_less_iff: "pow2 a < pow2 b \<longleftrightarrow> a < b"
  by (simp add: pow2_powr)

lemma pow2_nat: "0 \<le> e \<Longrightarrow> pow2 e = of_int (2 ^ nat e)"
  by (simp add: pow2_def)

lemma flog2_bounds:
  assumes "0 < x"
  shows "pow2 (flog2 x) \<le> x" and "x < pow2 (flog2 x + 1)"
proof -
  have "pow2 (flog2 x) \<le> x \<and> x < pow2 (flog2 x + 1)"
  proof (cases "1 \<le> x")
    case True
    define n where "n = \<lfloor>x\<rfloor>"
    have n: "0 < n" "of_int n \<le> x" "x < of_int n + 1" using True by (auto simp: n_def)
    have b: "1 \<le> bitlen n" using n(1) by (simp add: bitlen_alt_def)
    from bitlen_bounds[OF n(1)] have lo: "2 ^ nat (bitlen n - 1) \<le> n" and hi: "n < 2 ^ nat (bitlen n)"
      by simp_all
    have "pow2 (bitlen n - 1) = of_int (2 ^ nat (bitlen n - 1))" using b by (simp add: pow2_nat)
    also have "\<dots> \<le> of_int n" using lo by (simp only: of_int_le_iff)
    finally have 1: "pow2 (bitlen n - 1) \<le> x" using n(2) by simp
    have "n + 1 \<le> 2 ^ nat (bitlen n)" using hi by simp
    then have "real_of_int (n + 1) \<le> of_int (2 ^ nat (bitlen n))" by (simp only: of_int_le_iff)
    then have "x < of_int (2 ^ nat (bitlen n))" using n(3) by simp
    then have 2: "x < pow2 (bitlen n)" using b by (simp add: pow2_nat)
    show ?thesis using True 1 2 by (simp add: flog2_def n_def)
  next
    case False
    define y where "y = 1 / x"
    have y: "1 < y" using False assms by (simp add: y_def)
    define n where "n = \<lceil>y\<rceil> - 1"
    have n: "0 < n" "of_int n < y" "y \<le> of_int n + 1" using y by (auto simp: n_def) linarith+
    have b: "1 \<le> bitlen n" using n(1) by (simp add: bitlen_alt_def)
    from bitlen_bounds[OF n(1)] have lo: "2 ^ nat (bitlen n - 1) \<le> n" and hi: "n < 2 ^ nat (bitlen n)"
      by simp_all
    have "n + 1 \<le> 2 ^ nat (bitlen n)" using hi by simp
    then have "real_of_int (n + 1) \<le> of_int (2 ^ nat (bitlen n))" by (simp only: of_int_le_iff)
    then have "y \<le> 2 ^ nat (bitlen n)" using n(3) by simp
    then have "1 / 2 ^ nat (bitlen n) \<le> 1 / y" using y by (intro divide_left_mono) auto
    then have 1: "pow2 (- bitlen n) \<le> x" using b by (simp add: pow2_def y_def)
    have "(2::real) ^ nat (bitlen n - 1) \<le> of_int n"
      using lo of_int_le_iff[of "2 ^ nat (bitlen n - 1)" n, where ?'a = real] by simp
    then have "2 ^ nat (bitlen n - 1) < y" using n(2) by linarith
    then have "1 / y < 1 / 2 ^ nat (bitlen n - 1)" using y by (intro divide_strict_left_mono) auto
    then have "x < 1 / 2 ^ nat (bitlen n - 1)" using assms by (simp add: y_def)
    moreover have "pow2 (- bitlen n + 1) = 1 / 2 ^ nat (bitlen n - 1)"
    proof (cases "bitlen n = 1")
      case True
      then show ?thesis by (simp add: pow2_def)
    next
      case False
      then have "- bitlen n + 1 < 0" using b by simp
      then show ?thesis by (simp add: pow2_def)
    qed
    ultimately have 2: "x < pow2 (- bitlen n + 1)" by simp
    show ?thesis using False 1 2 by (simp add: flog2_def n_def y_def)
  qed
  then show "pow2 (flog2 x) \<le> x" and "x < pow2 (flog2 x + 1)" by simp_all
qed

lemma flog2_unique:
  assumes "pow2 k \<le> x" and "x < pow2 (k + 1)"
  shows "flog2 x = k"
proof -
  have pos: "0 < x" using assms(1) pow2_pos[of k] by linarith
  from flog2_bounds[OF pos] assms have "pow2 k < pow2 (flog2 x + 1)" "pow2 (flog2 x) < pow2 (k + 1)"
    by linarith+
  then show ?thesis by (simp add: pow2_less_iff)
qed

lemma flog2_mono:
  assumes "0 < x" and "x \<le> y"
  shows "flog2 x \<le> flog2 y"
proof -
  have "pow2 (flog2 x) < pow2 (flog2 y + 1)"
    using flog2_bounds(1)[OF assms(1)] flog2_bounds(2)[of y] assms by linarith
  then show ?thesis by (simp add: pow2_less_iff)
qed

lemma round_even_cases:
  "round_even q = \<lfloor>q\<rfloor> \<and> q - of_int \<lfloor>q\<rfloor> \<le> 1 / 2 \<or>
   round_even q = \<lfloor>q\<rfloor> + 1 \<and> 1 / 2 \<le> q - of_int \<lfloor>q\<rfloor>"
  by (auto simp: round_even_def Let_def)

lemma round_even_of_int: "round_even (of_int k) = k"
  by (simp add: round_even_def)

lemma round_even_floor: "\<lfloor>q\<rfloor> \<le> round_even q"
  using round_even_cases[of q] by auto

lemma round_even_ceiling: "round_even q \<le> \<lceil>q\<rceil>"
proof -
  have "\<lfloor>q\<rfloor> + 1 \<le> \<lceil>q\<rceil>" if "1 / 2 \<le> q - of_int \<lfloor>q\<rfloor>"
    using that by linarith
  moreover have "\<lfloor>q\<rfloor> \<le> \<lceil>q\<rceil>" by linarith
  ultimately show ?thesis using round_even_cases[of q] by auto
qed

lemma round_even_mono:
  assumes "q \<le> q'"
  shows "round_even q \<le> round_even q'"
proof (cases "\<lfloor>q\<rfloor> = \<lfloor>q'\<rfloor>")
  case True
  then show ?thesis using assms by (auto simp: round_even_def Let_def)
next
  case False
  then have "\<lfloor>q\<rfloor> < \<lfloor>q'\<rfloor>" using assms floor_mono[of q q'] by linarith
  then have "\<lceil>q\<rceil> \<le> \<lfloor>q'\<rfloor>" by linarith
  then show ?thesis using round_even_ceiling[of q] round_even_floor[of q'] by linarith
qed

lemma round_even_minus: "round_even (- q) = - round_even q"
proof (cases "q = of_int \<lfloor>q\<rfloor>")
  case True
  then obtain k where "q = of_int k" ..
  then have "- q = of_int (- k)" by simp
  then show ?thesis unfolding \<open>q = of_int k\<close> by (simp only: round_even_of_int)
next
  case False
  define n where "n = \<lfloor>q\<rfloor>"
  have n: "of_int n < q" "q < of_int n + 1" using False by (auto simp: n_def) linarith+
  then have fl: "\<lfloor>- q\<rfloor> = - n - 1" by linarith
  have ev: "even (- n - 1) \<longleftrightarrow> odd n" by simp
  show ?thesis
    unfolding round_even_def Let_def fl n_def[symmetric] ev using n by auto
qed

lemma round_even_ge: "of_int k \<le> q \<Longrightarrow> k \<le> round_even q"
  using round_even_mono[of "of_int k" q] by (simp add: round_even_of_int)

lemma round_even_le: "q \<le> of_int k \<Longrightarrow> round_even q \<le> k"
  using round_even_mono[of q "of_int k"] by (simp add: round_even_of_int)

lemma quantum_minus: "quantum (- x) = quantum x"
  by (simp add: quantum_def)

lemma round64_minus: "round64 (- x) = - round64 x"
  by (simp add: round64_def quantum_minus round_even_minus)

lemma round64_zero: "round64 0 = 0"
  by (simp add: round64_def round_even_def)

lemma round64_nonneg: "0 \<le> x \<Longrightarrow> 0 \<le> round64 x"
proof -
  assume "0 \<le> x"
  then have "of_int 0 \<le> x / pow2 (quantum x)" using pow2_pos[of "quantum x"] by simp
  from round_even_ge[OF this] show ?thesis
    using pow2_pos[of "quantum x"] by (simp add: round64_def)
qed

lemma quantum_mono:
  assumes "0 < x" and "x \<le> y"
  shows "quantum x \<le> quantum y"
  using flog2_mono[of x y] assms by (simp add: quantum_def)

text \<open>Between two binades a power of two separates the rounded values.\<close>

lemma round64_le_binade:
  assumes "0 < x"
  shows "round64 x \<le> pow2 (max (flog2 x + 1) (quantum x))"
proof -
  define e where "e = quantum x"
  define b where "b = max (flog2 x + 1) e"
  have e: "e \<le> b" "flog2 x + 1 \<le> b" "quantum x = e" by (simp_all add: e_def b_def)
  define N :: int where "N = 2 ^ nat (b - e)"
  have N: "of_int N = pow2 (b - e)" using e(1) by (simp add: N_def pow2_nat)
  have "x < pow2 b" using flog2_bounds(2)[OF assms] pow2_mono[OF e(2)] by linarith
  then have "x / pow2 e \<le> pow2 b / pow2 e"
    using pow2_pos[of e] by (simp add: divide_right_mono)
  then have "x / pow2 e \<le> of_int N" by (simp add: N pow2_diff)
  from round_even_le[OF this] have "of_int (round_even (x / pow2 e)) \<le> (of_int N :: real)"
    by simp
  then have "of_int (round_even (x / pow2 e)) * pow2 e \<le> of_int N * pow2 e"
    using pow2_pos[of e] by (simp add: mult_right_mono)
  also have "\<dots> = pow2 b" using pow2_pos[of e] by (simp add: N pow2_diff)
  finally show ?thesis by (simp add: round64_def e(3) b_def)
qed

lemma round64_ge_binade:
  assumes "0 < x" and "- 1074 < quantum x"
  shows "pow2 (flog2 x) \<le> round64 x"
proof -
  define e where "e = quantum x"
  have e: "e = flog2 x - 52" "quantum x = e" using assms by (simp_all add: e_def quantum_def)
  have N: "of_int (2 ^ 52) = pow2 (flog2 x - e)" by (simp add: e(1) pow2_def)
  have "pow2 (flog2 x) / pow2 e \<le> x / pow2 e"
    using flog2_bounds(1)[OF assms(1)] pow2_pos[of e] by (simp add: divide_right_mono)
  then have "of_int (2 ^ 52) \<le> x / pow2 e" by (simp only: N pow2_diff)
  from round_even_ge[OF this] have "(of_int (2 ^ 52) :: real) \<le> of_int (round_even (x / pow2 e))"
    by (simp only: of_int_le_iff)
  then have "of_int (2 ^ 52) * pow2 e \<le> of_int (round_even (x / pow2 e)) * pow2 e"
    using pow2_pos[of e] by (simp only: mult_le_cancel_right_pos)
  moreover have "of_int (2 ^ 52) * pow2 e = pow2 (flog2 x)"
    using pow2_pos[of e] by (simp only: N pow2_diff) simp
  ultimately show ?thesis by (simp add: round64_def e(2))
qed

lemma round64_mono_pos:
  assumes "0 < x" and "x \<le> y"
  shows "round64 x \<le> round64 y"
proof (cases "quantum x = quantum y")
  case True
  have "x / pow2 (quantum y) \<le> y / pow2 (quantum y)"
    using assms(2) pow2_pos[of "quantum y"] by (simp add: divide_right_mono)
  from round_even_mono[OF this] show ?thesis
    using pow2_pos[of "quantum y"] by (simp add: round64_def True mult_right_mono)
next
  case False
  have y: "0 < y" using assms by simp
  from False have lt: "quantum x < quantum y" using quantum_mono[OF assms] by simp
  then have "- 1074 < quantum y" by (simp add: quantum_def)
  from round64_ge_binade[OF y this] have 1: "pow2 (flog2 y) \<le> round64 y" .
  have "flog2 x < flog2 y" "quantum x \<le> flog2 y"
    using lt assms by (auto simp: quantum_def max_def split: if_splits)
  then have "pow2 (max (flog2 x + 1) (quantum x)) \<le> pow2 (flog2 y)" by (intro pow2_mono) simp
  then show ?thesis using round64_le_binade[OF assms(1)] 1 by linarith
qed

lemma round64_mono:
  assumes "x \<le> y"
  shows "round64 x \<le> round64 y"
proof -
  consider "0 < x" | "x \<le> 0" "0 \<le> y" | "y < 0" using assms by linarith
  then show ?thesis
  proof cases
    case 1
    then show ?thesis using assms by (rule round64_mono_pos)
  next
    case 2
    have "round64 x \<le> 0" using round64_nonneg[of "- x"] 2(1) by (simp add: round64_minus)
    then show ?thesis using round64_nonneg[OF 2(2)] by linarith
  next
    case 3
    then have "round64 (- y) \<le> round64 (- x)" using assms by (intro round64_mono_pos) auto
    then show ?thesis by (simp add: round64_minus)
  qed
qed

text \<open>A multiple of a power of two with at most 53 significant bits is its own rounding.\<close>

lemma round64_grid:
  assumes "\<bar>m\<bar> < 2 ^ 53" and "- 1074 \<le> e"
  shows "round64 (of_int m * pow2 e) = of_int m * pow2 e"
proof (cases "m = 0")
  case True
  then show ?thesis by (simp add: round64_zero)
next
  case False
  define x where "x = real_of_int m * pow2 e"
  have ax: "\<bar>x\<bar> = of_int \<bar>m\<bar> * pow2 e" using pow2_pos[of e] by (simp add: x_def abs_mult)
  have pos: "0 < \<bar>x\<bar>" using False pow2_pos[of e] by (simp add: x_def)
  have "real_of_int \<bar>m\<bar> < of_int (2 ^ 53)" using assms(1) by (simp only: of_int_less_iff)
  then have "\<bar>x\<bar> < of_int (2 ^ 53) * pow2 e" using pow2_pos[of e] by (simp add: ax)
  also have "\<dots> = pow2 (53 + e)" by (simp add: pow2_add) (simp add: pow2_def)
  finally have "pow2 (flog2 \<bar>x\<bar>) < pow2 (53 + e)" using flog2_bounds(1)[OF pos] by linarith
  then have "flog2 \<bar>x\<bar> - 52 \<le> e" by (simp add: pow2_less_iff)
  then have q: "quantum x \<le> e" using assms(2) by (simp add: quantum_def)
  define k where "k = m * 2 ^ nat (e - quantum x)"
  have "x / pow2 (quantum x) = of_int m * pow2 (e - quantum x)" by (simp add: x_def pow2_diff)
  also have "\<dots> = of_int k" using q by (simp add: k_def pow2_nat)
  finally have k: "x / pow2 (quantum x) = of_int k" .
  have "round64 x = of_int k * pow2 (quantum x)" by (simp only: round64_def k round_even_of_int)
  also have "\<dots> = x" using k pow2_pos[of "quantum x"] by (simp add: field_simps)
  finally show ?thesis by (simp add: x_def)
qed

lemma rnd_cases:
  obtains "rnd x = Fin (round64 x)" and "\<bar>round64 x\<bar> < pow2 1024"
  | "rnd x = PInf" and "pow2 1024 \<le> round64 x"
  | "rnd x = NInf" and "round64 x \<le> - pow2 1024"
  using pow2_pos[of 1024] by (cases "pow2 1024 \<le> round64 x"; cases "round64 x \<le> - pow2 1024")
    (auto simp: rnd_def Let_def)

lemma rnd_not_NaN: "rnd x \<noteq> NaN"
  by (rule rnd_cases[of x]) simp_all

lemma is_double_round64: "is_double x \<Longrightarrow> round64 x = x"
  by (rule rnd_cases[of x]) (simp_all add: is_double_def)

lemma is_double_bound: "is_double x \<Longrightarrow> \<bar>x\<bar> < pow2 1024"
  by (rule rnd_cases[of x]) (simp_all add: is_double_def)

lemma is_doubleI: "round64 x = x \<Longrightarrow> \<bar>x\<bar> < pow2 1024 \<Longrightarrow> is_double x"
  by (auto simp: is_double_def rnd_def Let_def)

lemma is_double_grid:
  assumes "\<bar>m\<bar> < 2 ^ 53" and "- 1074 \<le> e" and "e \<le> 971"
  shows "is_double (of_int m * pow2 e)"
proof (rule is_doubleI)
  show "round64 (of_int m * pow2 e) = of_int m * pow2 e" using assms(1,2) by (rule round64_grid)
  have "real_of_int \<bar>m\<bar> < of_int (2 ^ 53)" using assms(1) by (simp only: of_int_less_iff)
  then have "\<bar>real_of_int m * pow2 e\<bar> < of_int (2 ^ 53) * pow2 e"
    using pow2_pos[of e] by (simp add: abs_mult)
  also have "\<dots> = pow2 (53 + e)" by (simp add: pow2_add) (simp add: pow2_def)
  also have "\<dots> \<le> pow2 1024" using assms(3) by (intro pow2_mono) simp
  finally show "\<bar>real_of_int m * pow2 e\<bar> < pow2 1024" .
qed

lemma is_double_of_int: "\<bar>i\<bar> < 2 ^ 53 \<Longrightarrow> is_double (of_int i)"
  using is_double_grid[of i 0] by (simp add: pow2_def)

lemma is_double_zero: "is_double 0"
  using is_double_of_int[of 0] by simp

lemma is_double_minus: "is_double x \<Longrightarrow> is_double (- x)"
  using is_double_round64[of x] is_double_bound[of x] by (intro is_doubleI) (simp_all add: round64_minus)

lemma is_double_multiple:
  assumes "is_double x"
  shows "\<exists>n. x = of_int n * pow2 (- 1074)"
proof -
  define q where "q = quantum x"
  have q: "- 1074 \<le> q" by (simp add: q_def quantum_def)
  define r where "r = round_even (x / pow2 q)"
  have x: "x = of_int r * pow2 q"
    using is_double_round64[OF assms] by (simp add: round64_def q_def r_def)
  have "pow2 q = of_int (2 ^ nat (q + 1074)) * pow2 (- 1074)"
    using q pow2_add[of "q + 1074" "- 1074"] by (simp add: pow2_nat)
  then have "x = of_int (r * 2 ^ nat (q + 1074)) * pow2 (- 1074)"
    using x by simp
  then show ?thesis ..
qed

lemma double_sum_pos:
  assumes "is_double x" and "is_double y" and "0 < x + y"
  shows "pow2 (- 1074) \<le> x + y"
proof -
  from is_double_multiple[OF assms(1)] is_double_multiple[OF assms(2)]
  obtain n k where "x = of_int n * pow2 (- 1074)" "y = of_int k * pow2 (- 1074)" by blast
  then have s: "x + y = of_int (n + k) * pow2 (- 1074)" by (simp add: algebra_simps)
  then have "0 < real_of_int (n + k)" using assms(3) pow2_pos[of "- 1074"]
    by (simp add: zero_less_mult_iff)
  then have "0 < n + k" by (simp only: of_int_0_less_iff)
  then have "1 \<le> real_of_int (n + k)" by simp
  then have "1 * pow2 (- 1074) \<le> of_int (n + k) * pow2 (- 1074)"
    using pow2_pos[of "- 1074"] by (intro mult_right_mono) simp_all
  then show ?thesis using s by simp
qed

lemma is_double_pos: "is_double x \<Longrightarrow> 0 < x \<Longrightarrow> pow2 (- 1074) \<le> x"
  using double_sum_pos[of x 0] by (simp add: is_double_zero)

lemma is_double_pow2: "- 1074 \<le> e \<Longrightarrow> e \<le> 1023 \<Longrightarrow> is_double (pow2 e)"
proof -
  assume e: "- 1074 \<le> e" "e \<le> 1023"
  show ?thesis
  proof (cases "e \<le> 971")
    case True
    then show ?thesis using is_double_grid[of 1 e] e by simp
  next
    case False
    have "pow2 e = of_int (2 ^ 52) * pow2 (e - 52)"
      using pow2_add[of 52 "e - 52"] by (simp add: pow2_def)
    moreover have "is_double (of_int (2 ^ 52) * pow2 (e - 52))"
      using False e by (intro is_double_grid) simp_all
    ultimately show ?thesis by simp
  qed
qed

text \<open>Rounding is monotone, so a bound that is itself a float survives it.\<close>

lemma rnd_mono:
  assumes "x \<le> y"
  shows "\<not> py_less (rnd y) (rnd x)"
proof -
  note m = round64_mono[OF assms]
  show ?thesis
    by (rule rnd_cases[of x]; rule rnd_cases[of y]) (use m pow2_pos[of 1024] in auto)
qed

lemma rnd_ge:
  assumes "is_double a" and "a \<le> x"
  shows "rnd x = PInf \<or> (\<exists>y. rnd x = Fin y \<and> a \<le> y)"
proof -
  have "a \<le> round64 x" using round64_mono[OF assms(2)] is_double_round64[OF assms(1)] by simp
  moreover have "- pow2 1024 < a" using is_double_bound[OF assms(1)] by linarith
  ultimately show ?thesis by (rule_tac rnd_cases[of x]) auto
qed

lemma rnd_le:
  assumes "is_double b" and "x \<le> b"
  shows "rnd x = NInf \<or> (\<exists>y. rnd x = Fin y \<and> y \<le> b)"
proof -
  have "round64 x \<le> b" using round64_mono[OF assms(2)] is_double_round64[OF assms(1)] by simp
  moreover have "b < pow2 1024" using is_double_bound[OF assms(1)] by linarith
  ultimately show ?thesis by (rule_tac rnd_cases[of x]) auto
qed

lemma rnd_between:
  assumes "is_double a" and "is_double b" and "a \<le> x" and "x \<le> b"
  shows "\<exists>y. rnd x = Fin y \<and> a \<le> y \<and> y \<le> b"
  using rnd_ge[OF assms(1,3)] rnd_le[OF assms(2,4)] by auto

lemma rnd_exact: "is_double x \<Longrightarrow> rnd x = Fin x"
  by (simp add: is_double_def)

text \<open>Rounding a concrete number: the rules that evaluate \<open>rnd\<close>.\<close>

lemma bitlen_numeral_eval: "bitlen (numeral k) = bitlen (numeral k div 2) + 1"
  by (subst compute_bitlen) simp

lemma bitlen_one_eval: "bitlen 1 = 1"
  by (subst compute_bitlen) simp

lemmas rnd_eval = rnd_def round64_def quantum_def flog2_def round_even_def pow2_def Let_def
  bitlen_numeral_eval bitlen_one_eval

lemma round64_tenth: "round64 (1 / 10) = 3602879701896397 / 2 ^ 55"
  by (simp add: rnd_eval)

section \<open>The dispatcher's tick, fare by fare\<close>

lemmas tick_defs = clockTick_def tickOrigin_def tickDest_def tickFare_def getFare_def costFare_def
  computeSupplyRatio_def active_taxis_def fare_travel_time_def py_min_def py_max_def bindE_def
  py_get_def modFare_def allocateFare_def Let_def

lemmas ex_defs = ex_d0_def ex_d1_def ex_world_def ex_taxi_def newDispatcher_def newFareEntry_def

lemma map_fst_map_entry: "map fst (AList.map_entry k f xs) = map fst xs"
  by (induction xs) auto

lemma map_entry_id: "AList.map_entry k (\<lambda>x. x) xs = xs"
  by (induction xs) auto

lemma map_entry_id_fun: "AList.map_entry k (\<lambda>x. x) = (\<lambda>xs. xs)"
  by (rule ext) (rule map_entry_id)

lemma modFare_id: "modFare b o' dst t (\<lambda>f. f) = b"
  by (simp add: modFare_def map_entry_id_fun)

lemma fare_at_modFare:
  "fare_at (modFare b o' dst t g) o2 dst2 t2 =
     (if o2 = o' \<and> dst2 = dst \<and> t2 = t then map_option g (fare_at b o' dst t)
      else fare_at b o2 dst2 t2)"
  unfolding fare_at_def modFare_def
  by (auto simp: map_of_map_entry split: option.splits)

lemma forE_inv:
  assumes "forE body ks s = Inr s'" and "I s"
    and step: "\<And>k s s'. k \<in> set ks \<Longrightarrow> I s \<Longrightarrow> body k s = Inr s' \<Longrightarrow> I s'"
  shows "I s'"
  using assms
proof (induction ks arbitrary: s)
  case Nil
  then show ?case by simp
next
  case (Cons k ks)
  from Cons.prems(1) obtain s1 where s1: "body k s = Inr s1" and rest: "forE body ks s1 = Inr s'"
    by (auto split: sum.splits)
  have "I s1" using Cons.prems(3)[of k s s1] Cons.prems(2) s1 by simp
  moreover have "I s2'" if "ka \<in> set ks" "I s2" "body ka s2 = Inr s2'" for ka s2 s2'
    using Cons.prems(3)[of ka s2 s2'] that by simp
  ultimately show ?case using Cons.IH[OF rest] by blast
qed

lemma forE_visit:
  assumes "forE body ks s = Inr s'" and "distinct ks" and "k0 \<in> set ks" and "Pre s"
    and other: "\<And>k s s'. k \<in> set ks \<Longrightarrow> k \<noteq> k0 \<Longrightarrow> body k s = Inr s' \<Longrightarrow>
             (Pre s \<longrightarrow> Pre s') \<and> (Post s \<longrightarrow> Post s')"
    and here: "\<And>s s'. Pre s \<Longrightarrow> body k0 s = Inr s' \<Longrightarrow> Post s'"
  shows "Post s'"
  using assms(1-5)
proof (induction ks arbitrary: s)
  case Nil
  then show ?case by simp
next
  case (Cons k ks)
  from Cons.prems(1) obtain s1 where s1: "body k s = Inr s1" and rest: "forE body ks s1 = Inr s'"
    by (auto split: sum.splits)
  have other': "(Pre s2 \<longrightarrow> Pre s2') \<and> (Post s2 \<longrightarrow> Post s2')"
    if "ka \<in> set ks" "ka \<noteq> k0" "body ka s2 = Inr s2'" for ka s2 s2'
    using Cons.prems(5)[of ka s2 s2'] that by simp
  show ?case
  proof (cases "k = k0")
    case True
    then have "Post s1" using Cons.prems(4) s1 here by blast
    moreover have "k0 \<notin> set ks" using Cons.prems(2) True by simp
    ultimately show ?thesis
      using forE_inv[OF rest, of Post] other' by metis
  next
    case False
    then have "k0 \<in> set ks" using Cons.prems(3) by simp
    moreover have "Pre s1" using Cons.prems(5)[of k s s1] False s1 Cons.prems(4) by simp
    moreover have "distinct ks" using Cons.prems(2) by simp
    ultimately show ?thesis
      using Cons.IH[OF rest] other' by blast
  qed
qed

lemma forE_total:
  assumes "I pre s"
    and "\<And>pre k s. I pre s \<Longrightarrow> k \<in> set ks \<Longrightarrow> \<exists>s'. body k s = Inr s' \<and> I (pre @ [k]) s'"
  shows "\<exists>s'. forE body ks s = Inr s' \<and> I (pre @ ks) s'"
  using assms
proof (induction ks arbitrary: pre s)
  case Nil
  then show ?case by simp
next
  case (Cons k ks)
  from Cons.prems(2)[OF Cons.prems(1), of k] obtain s1 where
    s1: "body k s = Inr s1" "I (pre @ [k]) s1" by auto
  have "\<exists>s'. forE body ks s1 = Inr s' \<and> I ((pre @ [k]) @ ks) s'"
  proof (rule Cons.IH[OF s1(2)])
    fix pre' k' s'
    assume "I pre' s'" and "k' \<in> set ks"
    then show "\<exists>s''. body k' s' = Inr s'' \<and> I (pre' @ [k']) s''"
      using Cons.prems(2)[of pre' s' k'] by simp
  qed
  then show ?case using s1(1) by simp
qed

lemma level2_ok_map_entry:
  "list_all (\<lambda>(dst, tm). distinct (map fst tm)) (AList.map_entry k (AList.map_entry t g) dm)
   = list_all (\<lambda>(dst, tm). distinct (map fst tm)) dm"
  by (induction dm) (auto simp: map_fst_map_entry)

lemma board_ok_modFare: "board_ok (modFare b o' dst t g) = board_ok b"
proof -
  have "list_all (\<lambda>(o', dm). distinct (map fst dm) \<and>
                 list_all (\<lambda>(dst, tm). distinct (map fst tm)) dm)
          (AList.map_entry o' (AList.map_entry dst (AList.map_entry t g)) b)
      = list_all (\<lambda>(o', dm). distinct (map fst dm) \<and>
                 list_all (\<lambda>(dst, tm). distinct (map fst tm)) dm) b"
    by (induction b) (auto simp: map_fst_map_entry level2_ok_map_entry)
  then show ?thesis
    by (simp add: board_ok_def modFare_def map_fst_map_entry)
qed

lemma board_ok_levels:
  assumes "board_ok b" and "map_of b o' = Some dm"
  shows "distinct (map fst b)" and "distinct (map fst dm)"
    and "map_of dm dst = Some tm \<Longrightarrow> distinct (map fst tm)"
proof -
  show "distinct (map fst b)" using assms(1) by (simp add: board_ok_def)
  have "(o', dm) \<in> set b" using assms(2) by (rule map_of_SomeD)
  then have l2: "distinct (map fst dm) \<and> list_all (\<lambda>(dst, tm). distinct (map fst tm)) dm"
    using assms(1) by (auto simp: board_ok_def list_all_iff)
  then show "distinct (map fst dm)" by simp
  assume "map_of dm dst = Some tm"
  then have "(dst, tm) \<in> set dm" by (rule map_of_SomeD)
  then show "distinct (map fst tm)" using l2 by (auto simp: list_all_iff)
qed

lemma getFare_fare_at: "getFare b o' dst t = Inr f \<longleftrightarrow> fare_at b o' dst t = Some f"
  by (auto simp: getFare_def fare_at_def bindE_def py_get_def split: option.splits)

lemma allocate_loop_roster:
  assumes "taxis d1 = taxis d2"
  shows "allocate_loop w d1 o' n ks acc = allocate_loop w d2 o' n ks acc"
proof (induction ks arbitrary: acc)
  case Nil
  then show ?case by simp
next
  case (Cons k ks)
  obtain sel hi where acc: "acc = (sel, hi)" by (cases acc)
  show ?case unfolding acc using Cons.IH assms
    by (simp add: Let_def split: sum.splits)
qed

lemma winner_roster: "taxis d1 = taxis d2 \<Longrightarrow> winner w d1 o' f = winner w d2 o' f"
  by (simp add: winner_def allocate_loop_roster[of d1 d2])

lemma fare_after_tick_roster:
  "taxis d1 = taxis d2 \<Longrightarrow> fare_after_tick w d1 o' f = fare_after_tick w d2 o' f"
  by (simp add: fare_after_tick_def winner_roster[of d1 d2])

lemma calls_after_tick_roster:
  "taxis d1 = taxis d2 \<Longrightarrow> calls_after_tick w d1 o' dst f = calls_after_tick w d2 o' dst f"
  by (simp add: calls_after_tick_def winner_roster[of d1 d2] split: option.splits)

lemma loop_returned_roster:
  "taxis d1 = taxis d2 \<Longrightarrow> loop_returned w d1 o' f = loop_returned w d2 o' f"
  by (simp add: loop_returned_def allocate_loop_roster[of d1 d2])

lemma allocateFare_loop:
  assumes "allocateFare w d o' dst t = Inr (d', cs)" and "fare_at (fareBoard d) o' dst t = Some f"
  shows "\<not> isl (allocate_loop w d o' (length (bidders f)) (bidders f) (None, NInf))"
proof -
  have gf: "getFare (fareBoard d) o' dst t = Inr f" using assms(2) by (simp add: getFare_fare_at)
  from assms(1) gf show ?thesis
    by (auto simp: allocateFare_def bindE_def split: sum.splits)
qed

lemma py_index_nat:
  "py_index xs (int k) = Inr r \<longleftrightarrow> k < length xs \<and> r = xs ! k"
  by (auto simp: py_index_def)

lemma allocateFare_winner:
  assumes "allocateFare w d o' dst t = Inr (d', cs)" and "fare_at (fareBoard d) o' dst t = Some f"
  shows "(winner w d o' f = None \<and> d' = d \<and> cs = []) \<or>
         (\<exists>k. winner w d o' f = Some k \<and> k < length (taxis d) \<and>
              d' = d\<lparr>fareBoard := modFare (fareBoard d) o' dst t (\<lambda>f. f\<lparr>taxi := int k\<rparr>)\<rparr> \<and>
              cs = [AllocateFare o' (taxis d ! k)])"
proof -
  have gf: "getFare (fareBoard d) o' dst t = Inr f" using assms(2) by (simp add: getFare_fare_at)
  from assms(1) gf obtain sel hi where
    loop: "allocate_loop w d o' (length (bidders f)) (bidders f) (None, NInf) = Inr (sel, hi)"
    by (auto simp: allocateFare_def bindE_def split: sum.splits)
  then have win: "winner w d o' f = sel" by (simp add: winner_def)
  show ?thesis
  proof (cases sel)
    case None
    then show ?thesis using assms(1) gf loop win by (simp add: allocateFare_def bindE_def)
  next
    case (Some k)
    then obtain r where r: "py_index (taxis d) (int k) = Inr r"
      and d': "d' = d\<lparr>fareBoard := modFare (fareBoard d) o' dst t (\<lambda>f. f\<lparr>taxi := int k\<rparr>)\<rparr>"
      and cs: "cs = [AllocateFare o' r]"
      using assms(1) gf loop by (auto simp: allocateFare_def bindE_def split: sum.splits)
    from r have "k < length (taxis d)" "r = taxis d ! k" by (simp_all add: py_index_nat)
    then show ?thesis using Some win d' cs by simp
  qed
qed

lemma tickFare_board:
  assumes "tickFare w o' dst t (d, calls) = Inr (d', calls')"
    and "fare_at (fareBoard d) o' dst t = Some f"
  shows "\<exists>g. d' = d\<lparr>fareBoard := modFare (fareBoard d) o' dst t g\<rparr> \<and>
             g f = fare_after_tick w d o' f \<and>
             calls' = calls @ calls_after_tick w d o' dst f"
    and "loop_returned w d o' f"
proof -
  have gf: "getFare (fareBoard d) o' dst t = Inr f" using assms(2) by (simp add: getFare_fare_at)
  show "loop_returned w d o' f"
  proof (cases "price f \<noteq> Fin 0 \<and> taxi f < 0 \<and> bidders f \<noteq> []")
    case True
    then obtain d1 cs where "allocateFare w d o' dst t = Inr (d1, cs)"
      using assms(1) gf by (auto simp: tickFare_def bindE_def split: sum.splits)
    from allocateFare_loop[OF this assms(2)] show ?thesis by (simp add: loop_returned_def)
  next
    case False
    then show ?thesis by (auto simp: loop_returned_def)
  qed
  show "\<exists>g. d' = d\<lparr>fareBoard := modFare (fareBoard d) o' dst t g\<rparr> \<and>
             g f = fare_after_tick w d o' f \<and>
             calls' = calls @ calls_after_tick w d o' dst f"
  proof (cases "price f = Fin 0")
    case True
    then have "d' = d\<lparr>fareBoard := modFare (fareBoard d) o' dst t (\<lambda>f'. f'\<lparr>price := costFare w f\<rparr>)\<rparr>"
      and "calls' = calls @ [BroadcastFare o' dst (costFare w f)]"
      using assms(1) gf by (auto simp: tickFare_def bindE_def Let_def)
    then show ?thesis using True by (auto simp: fare_after_tick_def calls_after_tick_def)
  next
    case False
    show ?thesis
    proof (cases "taxi f < 0 \<and> 0 < length (bidders f)")
      case True
      then obtain d1 cs where al: "allocateFare w d o' dst t = Inr (d1, cs)"
        and res: "d' = d1" "calls' = calls @ cs"
        using assms(1) gf False by (auto simp: tickFare_def bindE_def split: sum.splits)
      from allocateFare_winner[OF al assms(2)] show ?thesis
      proof
        assume "winner w d o' f = None \<and> d1 = d \<and> cs = []"
        moreover have "d = d\<lparr>fareBoard := modFare (fareBoard d) o' dst t (\<lambda>f. f)\<rparr>"
          by (simp add: modFare_id)
        ultimately show ?thesis using False True res
          by (intro exI[of _ "\<lambda>f. f"]) (simp add: fare_after_tick_def calls_after_tick_def)
      next
        assume "\<exists>k. winner w d o' f = Some k \<and> k < length (taxis d) \<and>
              d1 = d\<lparr>fareBoard := modFare (fareBoard d) o' dst t (\<lambda>f. f\<lparr>taxi := int k\<rparr>)\<rparr> \<and>
              cs = [AllocateFare o' (taxis d ! k)]"
        then obtain k where "winner w d o' f = Some k"
          "d1 = d\<lparr>fareBoard := modFare (fareBoard d) o' dst t (\<lambda>f. f\<lparr>taxi := int k\<rparr>)\<rparr>"
          "cs = [AllocateFare o' (taxis d ! k)]" by blast
        then show ?thesis using False True res
          by (intro exI[of _ "\<lambda>f. f\<lparr>taxi := int k\<rparr>"]) (simp add: fare_after_tick_def calls_after_tick_def)
      qed
    next
      case F2: False
      then have "d' = d" "calls' = calls" using assms(1) gf False by (auto simp: tickFare_def bindE_def)
      moreover have "d = d\<lparr>fareBoard := modFare (fareBoard d) o' dst t (\<lambda>f. f)\<rparr>"
        by (simp add: modFare_id)
      ultimately show ?thesis using False F2
        by (intro exI[of _ "\<lambda>f. f"]) (auto simp: fare_after_tick_def calls_after_tick_def)
    qed
  qed
qed

lemma untouched_refl: "untouched o' dst t s s"
  by (simp add: untouched_def)

lemma untouched_trans: "untouched o' dst t s s1 \<Longrightarrow> untouched o' dst t s1 s2 \<Longrightarrow> untouched o' dst t s s2"
  by (auto simp: untouched_def)

lemma tickFare_Inr_fare:
  assumes "tickFare w o2 d2 t2 s = Inr s'"
  obtains f2 where "fare_at (fareBoard (fst s)) o2 d2 t2 = Some f2"
proof -
  obtain d calls where s: "s = (d, calls)" by (cases s)
  from assms obtain f2 where "getFare (fareBoard d) o2 d2 t2 = Inr f2"
    unfolding s tickFare_def bindE_def by (auto split: sum.splits)
  then show ?thesis using that s by (simp add: getFare_fare_at)
qed

lemma tickFare_ok:
  assumes "tickFare w o2 d2 t2 s = Inr s'"
  shows "board_ok (fareBoard (fst s')) = board_ok (fareBoard (fst s))"
    and "taxis (fst s') = taxis (fst s)" and "set (snd s) \<subseteq> set (snd s')"
proof -
  obtain d calls where s: "s = (d, calls)" by (cases s)
  obtain d' calls' where s': "s' = (d', calls')" by (cases s')
  from assms obtain f2 where "fare_at (fareBoard d) o2 d2 t2 = Some f2"
    using tickFare_Inr_fare s by (metis fst_conv)
  from tickFare_board(1)[OF assms[unfolded s s'] this]
  show "board_ok (fareBoard (fst s')) = board_ok (fareBoard (fst s))"
    and "taxis (fst s') = taxis (fst s)" and "set (snd s) \<subseteq> set (snd s')"
    unfolding s s' by (auto simp: board_ok_modFare)
qed

lemma tickFare_other:
  assumes "tickFare w o2 d2 t2 s = Inr s'" and "(o2, d2, t2) \<noteq> (o', dst, t)"
  shows "untouched o' dst t s s'"
proof -
  obtain d calls where s: "s = (d, calls)" by (cases s)
  obtain d' calls' where s': "s' = (d', calls')" by (cases s')
  from assms obtain f2 where "fare_at (fareBoard d) o2 d2 t2 = Some f2"
    using tickFare_Inr_fare s by (metis fst_conv)
  from tickFare_board(1)[OF assms(1)[unfolded s s'] this] show ?thesis
    using assms(2) unfolding s s' untouched_def
    by (auto simp: board_ok_modFare fare_at_modFare)
qed

lemma tickFare_this:
  assumes "tickFare w o' dst t s = Inr s'" and "pre_tick d0 o' dst t f s"
  shows "post_tick w d0 o' dst t f s'"
proof -
  obtain d calls where s: "s = (d, calls)" by (cases s)
  obtain d' calls' where s': "s' = (d', calls')" by (cases s')
  have ok: "board_ok (fareBoard d)" and ro: "taxis d = taxis d0"
    and f: "fare_at (fareBoard d) o' dst t = Some f"
    using assms(2) by (simp_all add: pre_tick_def s)
  note lr = tickFare_board(2)[OF assms(1)[unfolded s s'] f]
  from tickFare_board(1)[OF assms(1)[unfolded s s'] f] obtain g where
    g: "d' = d\<lparr>fareBoard := modFare (fareBoard d) o' dst t g\<rparr>"
      "g f = fare_after_tick w d o' f" "calls' = calls @ calls_after_tick w d o' dst f" by blast
  have "fare_at (fareBoard d') o' dst t = Some (fare_after_tick w d0 o' f)"
    using g(1,2) f fare_after_tick_roster[OF ro] by (simp add: fare_at_modFare)
  moreover have "set (calls_after_tick w d0 o' dst f) \<subseteq> set calls'"
    using g(3) calls_after_tick_roster[OF ro] by simp
  moreover have "board_ok (fareBoard d')" "taxis d' = taxis d0"
    using g(1) ok ro by (simp_all add: board_ok_modFare)
  moreover have "loop_returned w d0 o' f" using lr loop_returned_roster[OF ro] by simp
  ultimately show ?thesis by (simp add: post_tick_def s')
qed

lemma untouched_pre_post:
  assumes "untouched o' dst t s s'"
  shows "(pre_tick d0 o' dst t f s \<longrightarrow> pre_tick d0 o' dst t f s') \<and>
         (post_tick w d0 o' dst t f s \<longrightarrow> post_tick w d0 o' dst t f s')"
  using assms by (auto simp: untouched_def pre_tick_def post_tick_def)

lemma tickDest_other:
  assumes "tickDest w o2 d2 s = Inr s'" and "(o2, d2) \<noteq> (o', dst)"
  shows "untouched o' dst t s s'"
proof -
  from assms(1) obtain ts where loop: "forE (tickFare w o2 d2) ts s = Inr s'"
    unfolding tickDest_def bindE_def by (auto split: sum.splits)
  show ?thesis
  proof (rule forE_inv[OF loop, of "untouched o' dst t s"])
    show "untouched o' dst t s s" by (rule untouched_refl)
  next
    fix k s1 s2
    assume "untouched o' dst t s s1" and "tickFare w o2 d2 k s1 = Inr s2"
    moreover have "(o2, d2, k) \<noteq> (o', dst, t)" using assms(2) by auto
    ultimately show "untouched o' dst t s s2"
      using tickFare_other untouched_trans by blast
  qed
qed

lemma tickDest_this:
  assumes "tickDest w o' dst s = Inr s'" and "pre_tick d0 o' dst t f s"
  shows "post_tick w d0 o' dst t f s'"
proof -
  from assms(1) obtain dm tm where dm: "map_of (fareBoard (fst s)) o' = Some dm"
    and tm: "map_of dm dst = Some tm"
    and loop: "forE (tickFare w o' dst) (sort (map fst tm)) s = Inr s'"
    unfolding tickDest_def bindE_def py_get_def by (auto split: sum.splits option.splits)
  have ok: "board_ok (fareBoard (fst s))" and f: "fare_at (fareBoard (fst s)) o' dst t = Some f"
    using assms(2) by (simp_all add: pre_tick_def)
  have "map_of tm t = Some f" using f dm tm by (simp add: fare_at_def)
  then have mem: "t \<in> set (sort (map fst tm))"
    by (metis map_of_SomeD fst_conv image_eqI set_map set_sort)
  have dist: "distinct (sort (map fst tm))"
    using board_ok_levels(3)[OF ok dm tm] by simp
  show ?thesis
  proof (rule forE_visit[OF loop dist mem, of "pre_tick d0 o' dst t f" "post_tick w d0 o' dst t f"])
    show "pre_tick d0 o' dst t f s" by (rule assms(2))
  next
    fix k s1 s2
    assume "k \<noteq> t" and "tickFare w o' dst k s1 = Inr s2"
    then have "untouched o' dst t s1 s2" using tickFare_other by blast
    then show "(pre_tick d0 o' dst t f s1 \<longrightarrow> pre_tick d0 o' dst t f s2) \<and>
               (post_tick w d0 o' dst t f s1 \<longrightarrow> post_tick w d0 o' dst t f s2)"
      by (rule untouched_pre_post)
  next
    fix s1 s2
    assume "pre_tick d0 o' dst t f s1" and step: "tickFare w o' dst t s1 = Inr s2"
    then show "post_tick w d0 o' dst t f s2" using tickFare_this by blast
  qed
qed

lemma tickOrigin_other:
  assumes "tickOrigin w o2 s = Inr s'" and "o2 \<noteq> o'"
  shows "untouched o' dst t s s'"
proof -
  from assms(1) obtain ds where loop: "forE (tickDest w o2) ds s = Inr s'"
    unfolding tickOrigin_def bindE_def by (auto split: sum.splits)
  show ?thesis
  proof (rule forE_inv[OF loop, of "untouched o' dst t s"])
    show "untouched o' dst t s s" by (rule untouched_refl)
  next
    fix k s1 s2
    assume "untouched o' dst t s s1" and "tickDest w o2 k s1 = Inr s2"
    moreover have "(o2, k) \<noteq> (o', dst)" using assms(2) by auto
    ultimately show "untouched o' dst t s s2"
      using tickDest_other untouched_trans by blast
  qed
qed

lemma tickOrigin_this:
  assumes "tickOrigin w o' s = Inr s'" and "pre_tick d0 o' dst t f s"
  shows "post_tick w d0 o' dst t f s'"
proof -
  from assms(1) obtain dm where dm: "map_of (fareBoard (fst s)) o' = Some dm"
    and loop: "forE (tickDest w o') (map fst dm) s = Inr s'"
    unfolding tickOrigin_def bindE_def py_get_def by (auto split: sum.splits option.splits)
  have ok: "board_ok (fareBoard (fst s))" and f: "fare_at (fareBoard (fst s)) o' dst t = Some f"
    using assms(2) by (simp_all add: pre_tick_def)
  from f dm obtain tm where "map_of dm dst = Some tm"
    by (auto simp: fare_at_def split: option.splits)
  then have mem: "dst \<in> set (map fst dm)"
    by (metis map_of_SomeD fst_conv image_eqI set_map)
  have dist: "distinct (map fst dm)" by (rule board_ok_levels(2)[OF ok dm])
  show ?thesis
  proof (rule forE_visit[OF loop dist mem, of "pre_tick d0 o' dst t f" "post_tick w d0 o' dst t f"])
    show "pre_tick d0 o' dst t f s" by (rule assms(2))
  next
    fix k s1 s2
    assume "k \<noteq> dst" and "tickDest w o' k s1 = Inr s2"
    then have "untouched o' dst t s1 s2" using tickDest_other by blast
    then show "(pre_tick d0 o' dst t f s1 \<longrightarrow> pre_tick d0 o' dst t f s2) \<and>
               (post_tick w d0 o' dst t f s1 \<longrightarrow> post_tick w d0 o' dst t f s2)"
      by (rule untouched_pre_post)
  next
    fix s1 s2
    assume "pre_tick d0 o' dst t f s1" and "tickDest w o' dst s1 = Inr s2"
    then show "post_tick w d0 o' dst t f s2" using tickDest_this by blast
  qed
qed

lemma clockTick_fare:
  assumes tick: "clockTick d w = Inr (d', calls)" and own: "parent d = wid w"
    and ok: "board_ok (fareBoard d)" and f: "fare_at (fareBoard d) o' dst t = Some f"
  shows "fare_at (fareBoard d') o' dst t = Some (fare_after_tick w d o' f)"
    and "set (calls_after_tick w d o' dst f) \<subseteq> set calls"
    and "board_ok (fareBoard d')" and "taxis d' = taxis d" and "loop_returned w d o' f"
proof -
  have loop: "forE (tickOrigin w) (map fst (fareBoard d)) (d, []) = Inr (d', calls)"
    using tick own by (simp add: clockTick_def)
  have pre: "pre_tick d o' dst t f (d, [])" using ok f by (simp add: pre_tick_def)
  from f obtain dm where "map_of (fareBoard d) o' = Some dm"
    by (auto simp: fare_at_def split: option.splits)
  then have mem: "o' \<in> set (map fst (fareBoard d))"
    by (metis map_of_SomeD fst_conv image_eqI set_map)
  have dist: "distinct (map fst (fareBoard d))" using ok by (simp add: board_ok_def)
  have "post_tick w d o' dst t f (d', calls)"
  proof (rule forE_visit[OF loop dist mem, of "pre_tick d o' dst t f" "post_tick w d o' dst t f"])
    show "pre_tick d o' dst t f (d, [])" by (rule pre)
  next
    fix k s1 s2
    assume "k \<noteq> o'" and "tickOrigin w k s1 = Inr s2"
    then have "untouched o' dst t s1 s2" using tickOrigin_other by blast
    then show "(pre_tick d o' dst t f s1 \<longrightarrow> pre_tick d o' dst t f s2) \<and>
               (post_tick w d o' dst t f s1 \<longrightarrow> post_tick w d o' dst t f s2)"
      by (rule untouched_pre_post)
  next
    fix s1 s2
    assume "pre_tick d o' dst t f s1" and "tickOrigin w o' s1 = Inr s2"
    then show "post_tick w d o' dst t f s2" using tickOrigin_this by blast
  qed
  then show "fare_at (fareBoard d') o' dst t = Some (fare_after_tick w d o' f)"
    and "set (calls_after_tick w d o' dst f) \<subseteq> set calls"
    and "board_ok (fareBoard d')" and "taxis d' = taxis d" and "loop_returned w d o' f"
    by (simp_all add: post_tick_def)
qed

section \<open>Requests from a foreign world\<close>

text \<open>
  Claim C10. Each of \<^verbatim>\<open>newFare\<close>, \<^verbatim>\<open>cancelFare\<close>, \<^verbatim>\<open>recvPayment\<close> and \<^verbatim>\<open>clockTick\<close>,
  called with a world that is not the dispatcher's own, returns the dispatcher as it
  was and makes no call on the world.
\<close>

theorem foreign_world_ignored:
  assumes "wid w \<noteq> parent d"
  shows "newFare d w o' dst t = Inr (d, []) \<and>
         cancelFare d w o' dst t = Inr (d, []) \<and>
         recvPayment d w amount = Inr (d, []) \<and>
         clockTick d w = Inr (d, [])"
  using assms by (auto simp: newFare_def cancelFare_def recvPayment_def clockTick_def)

theorem foreign_world_ignored_witness:
  "wid (ex_world\<lparr>wid := 2\<rparr>) \<noteq> parent ex_d1 \<and>
   newFare ex_d1 (ex_world\<lparr>wid := 2\<rparr>) (0, 0) (6, 8) 1 = Inr (ex_d1, []) \<and>
   cancelFare ex_d1 (ex_world\<lparr>wid := 2\<rparr>) (0, 0) (3, 4) 0 = Inr (ex_d1, []) \<and>
   recvPayment ex_d1 (ex_world\<lparr>wid := 2\<rparr>) 30 = Inr (ex_d1, []) \<and>
   clockTick ex_d1 (ex_world\<lparr>wid := 2\<rparr>) = Inr (ex_d1, [])"
proof -
  have h: "wid (ex_world\<lparr>wid := 2\<rparr>) \<noteq> parent ex_d1"
    by (simp add: ex_d1_def ex_d0_def newDispatcher_def)
  show ?thesis
    using h foreign_world_ignored[OF h, of "(0, 0)" "(6, 8)" 1 30]
      foreign_world_ignored[OF h, of "(0, 0)" "(3, 4)" 0 30] by simp
qed

section \<open>Requesting and cancelling a fare\<close>

lemma ex_newFare: "newFare ex_d0 ex_world (0, 0) (3, 4) 0 = Inr (ex_d1, [])"
  by (simp add: newFare_def ex_d0_def ex_d1_def ex_world_def newDispatcher_def bindE_def py_get_def)

text \<open>
  Claim C6, at the input where the code departs from it. The fare from \<open>(0, 0)\<close> to
  \<open>(3, 4)\<close> has just been requested and no taxi is assigned to it (its \<open>taxi\<close> is
  \<open>-1\<close>). Cancelling it removes the entry and prunes the two levels, and it also sends
  a cancellation to taxi \<open>9\<close>, the last taxi of the roster, which \<^verbatim>\<open>self._taxis[-1]\<close>
  denotes. With an empty roster the same call raises \<^verbatim>\<open>IndexError\<close>.
\<close>

theorem cancelFare_unassigned_notifies_last_taxi:
  "taxi (newFareEntry (0, 0) (3, 4) 0) = -1 \<and>
   cancelFare ex_d1 ex_world (0, 0) (3, 4) 0
     = Inr (ex_d0\<lparr>abandonedRides := 1\<rparr>, [CancelFare (0, 0) 9]) \<and>
   cancelFare (ex_d1\<lparr>taxis := []\<rparr>) ex_world (0, 0) (3, 4) 0 = Inl IndexError"
  by (simp add: cancelFare_def ex_d0_def ex_d1_def ex_world_def newDispatcher_def bindE_def
      py_get_def py_index_def newFareEntry_def)

text \<open>
  Claim C9, at the input where the code departs from it. A second fare from the same
  origin \<open>(0, 0)\<close> to a new destination \<open>(6, 8)\<close> is inserted as the claim says, and the
  counter of completed rides goes from \<open>0\<close> to \<open>1\<close>.
\<close>

theorem newFare_bumps_completedRides:
  "completedRides ex_d1 = 0 \<and>
   newFare ex_d1 ex_world (0, 0) (6, 8) 1
     = Inr (ex_d1\<lparr>fareBoard := [((0, 0), [((3, 4), [(0, newFareEntry (0, 0) (3, 4) 0)]),
                                          ((6, 8), [(1, newFareEntry (0, 0) (6, 8) 1)])])],
                  completedRides := 1\<rparr>, [])"
  by (simp add: newFare_def ex_d0_def ex_d1_def ex_world_def newDispatcher_def bindE_def py_get_def)

section \<open>Payment to a taxi\<close>

text \<open>
  Claim C7, at the input where the code departs from it. A payment of \<open>10\<close> raises the
  account of the taxi by \<open>10\<close> and leaves its income where it was.
\<close>

theorem recvMsg_payment_leaves_income:
  "account (recvMsg ex_world ex_taxi (FARE_PAY 10)) = account ex_taxi + 10 \<and>
   income (recvMsg ex_world ex_taxi (FARE_PAY 10)) = income ex_taxi \<and>
   income (recvMsg ex_world ex_taxi (FARE_PAY 10)) \<noteq> income ex_taxi + 10"
  by (simp add: recvMsg_def ex_taxi_def rnd_eval)

section \<open>Allocation\<close>

lemma py_less_trans: "py_less a b \<Longrightarrow> py_less b c \<Longrightarrow> py_less a c"
  by (cases a; cases b; cases c) simp_all

lemma py_less_below: "\<not> py_less a b \<Longrightarrow> py_less a c \<Longrightarrow> b = NaN \<or> py_less b c"
  by (cases a; cases b; cases c) simp_all

lemma py_less_NInf: "py_less NInf x \<longleftrightarrow> x \<noteq> NInf \<and> x \<noteq> NaN"
  by (cases x) simp_all

lemma leads_new_best:
  assumes "leads sc E (sel, hi)" and "py_less hi (sc x)"
  shows "leads sc (E @ [x]) (Some x, sc x)"
proof -
  have all: "list_all (\<lambda>j. py_less (sc j) (sc x) \<or> sc j = NaN) E"
  proof (cases sel)
    case None
    then have "list_all (\<lambda>j. \<not> py_less NInf (sc j)) E" and "hi = NInf"
      using assms(1) by (simp_all add: leads_def)
    then show ?thesis using assms(2) py_less_below[of NInf _ "sc x"]
      by (auto simp: list_all_iff)
  next
    case (Some k)
    then obtain xs ys where hi: "hi = sc k" and E: "E = xs @ k # ys"
      and xs: "list_all (\<lambda>j. py_less (sc j) (sc k) \<or> sc j = NaN) xs"
      and ys: "list_all (\<lambda>j. \<not> py_less (sc k) (sc j)) ys"
      using assms(1) by (auto simp: leads_def)
    have lt: "py_less (sc k) (sc x)" using assms(2) hi by simp
    have "py_less (sc j) (sc x) \<or> sc j = NaN" if "j \<in> set xs" for j
      using xs that lt py_less_trans[of "sc j" "sc k" "sc x"] by (auto simp: list_all_iff)
    moreover have "py_less (sc j) (sc x) \<or> sc j = NaN" if "j \<in> set ys" for j
      using ys that lt py_less_below[of "sc k" "sc j" "sc x"] by (auto simp: list_all_iff)
    ultimately show ?thesis using lt unfolding E by (auto simp: list_all_iff)
  qed
  have top: "py_less NInf (sc x)" using assms(2) by (cases hi; cases "sc x") simp_all
  have "\<exists>xs ys. E @ [x] = xs @ x # ys \<and> list_all (\<lambda>j. py_less (sc j) (sc x) \<or> sc j = NaN) xs \<and>
                 list_all (\<lambda>j. \<not> py_less (sc x) (sc j)) ys"
    by (rule exI[of _ E], rule exI[of _ "[]"]) (simp add: all)
  then show ?thesis using top by (simp add: leads_def)
qed

lemma leads_keep:
  assumes "leads sc E (sel, hi)" and "\<not> py_less hi (sc x)"
  shows "leads sc (E @ [x]) (sel, hi)"
proof (cases sel)
  case None
  then show ?thesis using assms by (simp add: leads_def)
next
  case (Some k)
  then obtain xs ys where hi: "hi = sc k" and top: "py_less NInf (sc k)" and E: "E = xs @ k # ys"
    and xs: "list_all (\<lambda>j. py_less (sc j) (sc k) \<or> sc j = NaN) xs"
    and ys: "list_all (\<lambda>j. \<not> py_less (sc k) (sc j)) ys"
    using assms(1) by (auto simp: leads_def)
  have le: "\<not> py_less (sc k) (sc x)" using assms(2) hi by simp
  have "E @ [x] = xs @ k # (ys @ [x])" by (simp add: E)
  moreover have "list_all (\<lambda>j. \<not> py_less (sc k) (sc j)) (ys @ [x])" using ys le by simp
  ultimately have "\<exists>xs' ys'. E @ [x] = xs' @ k # ys' \<and>
      list_all (\<lambda>j. py_less (sc j) (sc k) \<or> sc j = NaN) xs' \<and>
      list_all (\<lambda>j. \<not> py_less (sc k) (sc j)) ys'"
    using xs by blast
  then show ?thesis unfolding leads_def using Some hi top by simp
qed

lemma allocate_loop_leads:
  assumes "allocate_loop w d o' n ks acc = Inr acc'"
    and "leads (bidder_score w d o' n) (filter (eligible w d) pre) acc"
  shows "leads (bidder_score w d o' n) (filter (eligible w d) (pre @ ks)) acc'"
  using assms
proof (induction ks arbitrary: pre acc)
  case Nil
  then show ?case by simp
next
  case (Cons k ks)
  obtain sel hi where acc: "acc = (sel, hi)" by (cases acc)
  have app: "pre @ k # ks = (pre @ [k]) @ ks" by simp
  show ?case
  proof (cases "eligible w d k")
    case False
    then have "allocate_loop w d o' n ks acc = Inr acc'"
      using Cons.prems(1) unfolding acc by (auto simp: eligible_def Let_def split: if_splits)
    moreover have "leads (bidder_score w d o' n) (filter (eligible w d) (pre @ [k])) acc"
      using Cons.prems(2) False by simp
    ultimately show ?thesis unfolding app by (rule Cons.IH)
  next
    case True
    then have el: "k < length (taxis d)" "onDuty (deref w (taxis d ! k))"
      "0 < account (deref w (taxis d ! k))" by (simp_all add: eligible_def)
    from Cons.prems(1) el have ps: "priority_score w o' n (deref w (taxis d ! k))
        = Inr (bidder_score w d o' n k)"
      unfolding acc by (auto simp: Let_def bidder_score_def split: sum.splits if_splits)
    show ?thesis
    proof (cases "py_less hi (bidder_score w d o' n k)")
      case better: True
      then have "allocate_loop w d o' n ks (Some k, bidder_score w d o' n k) = Inr acc'"
        using Cons.prems(1) el ps unfolding acc by (simp add: Let_def)
      moreover have "leads (bidder_score w d o' n) (filter (eligible w d) (pre @ [k]))
          (Some k, bidder_score w d o' n k)"
        using leads_new_best[OF Cons.prems(2)[unfolded acc] better] True by simp
      ultimately show ?thesis unfolding app by (rule Cons.IH)
    next
      case worse: False
      then have "allocate_loop w d o' n ks (sel, hi) = Inr acc'"
        using Cons.prems(1) el ps unfolding acc by (simp add: Let_def)
      moreover have "leads (bidder_score w d o' n) (filter (eligible w d) (pre @ [k])) (sel, hi)"
        using leads_keep[OF Cons.prems(2)[unfolded acc] worse] True by simp
      ultimately show ?thesis unfolding app by (rule Cons.IH)
    qed
  qed
qed

lemma allocate_loop_result:
  assumes "allocate_loop w d o' n bs (None, NInf) = Inr (sel, hi)"
  shows "leads (bidder_score w d o' n) (filter (eligible w d) bs) (sel, hi)"
  using allocate_loop_leads[OF assms, of "[]"] by (simp add: leads_def)



text \<open>The taxi that the loop selects is an eligible bidder; with an eligible bidder
  whose score is above \<^verbatim>\<open>-inf\<close> the loop, if it returns, selects one.\<close>

lemma winner_eligible:
  assumes "winner w d o' f = Some k"
  shows "k \<in> set (bidders f)" and "eligible w d k"
proof -
  from assms obtain hi where
    loop: "allocate_loop w d o' (length (bidders f)) (bidders f) (None, NInf) = Inr (Some k, hi)"
    by (auto simp: winner_def split: sum.splits)
  from allocate_loop_result[OF loop] obtain xs ys where
    "filter (eligible w d) (bidders f) = xs @ k # ys" by (auto simp: leads_def)
  then have "k \<in> set (filter (eligible w d) (bidders f))" by simp
  then show "k \<in> set (bidders f)" and "eligible w d k" by simp_all
qed

lemma winner_exists:
  assumes "allocate_loop w d o' (length (bidders f)) (bidders f) (None, NInf) = Inr acc"
    and "k \<in> set (bidders f)" and "eligible w d k"
    and "py_less NInf (bidder_score w d o' (length (bidders f)) k)"
  shows "winner w d o' f \<noteq> None"
proof
  assume none: "winner w d o' f = None"
  obtain sel hi where acc: "acc = (sel, hi)" by (cases acc)
  have "sel = None" using none assms(1) by (simp add: winner_def acc)
  then have "leads (bidder_score w d o' (length (bidders f))) (filter (eligible w d) (bidders f))
      (None, hi)"
    using allocate_loop_result[OF assms(1)[unfolded acc]] by simp
  then have "list_all (\<lambda>j. \<not> py_less NInf (bidder_score w d o' (length (bidders f)) j))
      (filter (eligible w d) (bidders f))" by (simp add: leads_def)
  then show False using assms(2-4) by (auto simp: list_all_iff)
qed

lemmas alloc_defs = allocateFare_def getFare_def bindE_def py_get_def py_index_def modFare_def
  priority_score_def pickup_duration_def pickup_time_def currentLocation_def py_int_div_def
  py_max_def Let_def



lemma ex_scores:
  "bidder_score ex_world ex_d3 (0, 0) 2 0 = Fin (2440575698065861 / 2 ^ 49)"
  "bidder_score ex_world ex_d3 (0, 0) 2 1 = Fin (2440575698065861 / 2 ^ 49)"
  by (simp_all add: bidder_score_def alloc_defs ex_defs ex_d3_def rnd_eval)


lemma ex_tick_off: "clockTick ex_d3 ex_world_off = Inr (ex_d3, [])"
  by (simp add: tick_defs ex_defs ex_d3_def ex_world_off_def)

lemma ex_tick_alloc: "clockTick ex_d3 ex_world = Inr (ex_d4, [AllocateFare (0, 0) 9])"
  by (simp add: tick_defs alloc_defs ex_defs ex_d3_def ex_d4_def rnd_eval)

text \<open>
  Claim C2. When a tick of the dispatcher has visited a priced fare that had no taxi
  and some bidders, either the fare is as it was, or the taxi recorded on it, which is
  notified, is a bidder that the world showed on duty with a strictly positive account.
  With no bidder on duty and solvent the fare is left as it was; and a fare so left is
  up for allocation again at the next tick, which allocates it as soon as a bidder is
  on duty and solvent and has a score above \<^verbatim>\<open>-inf\<close>.
\<close>

theorem allocation_winner_on_duty_and_solvent:
  assumes "clockTick d w = Inr (d', calls)" and "parent d = wid w"
    and "board_ok (fareBoard d)" and "fare_at (fareBoard d) o' dst t = Some f"
    and "price f \<noteq> Fin 0" and "taxi f < 0" and "bidders f \<noteq> []"
  shows "((\<exists>k. k \<in> set (bidders f) \<and> k < length (taxis d) \<and>
               onDuty (deref w (taxis d ! k)) \<and> 0 < account (deref w (taxis d ! k)) \<and>
               fare_at (fareBoard d') o' dst t = Some (f\<lparr>taxi := int k\<rparr>) \<and>
               AllocateFare o' (taxis d ! k) \<in> set calls)
          \<or> fare_at (fareBoard d') o' dst t = Some f) \<and>
         (\<not> (\<exists>k\<in>set (bidders f). eligible w d k) \<longrightarrow>
            fare_at (fareBoard d') o' dst t = Some f) \<and>
         (\<forall>w2 d2 calls2 k.
            fare_at (fareBoard d') o' dst t = Some f \<and>
            clockTick d' w2 = Inr (d2, calls2) \<and> parent d' = wid w2 \<and>
            k \<in> set (bidders f) \<and> eligible w2 d k \<and>
            py_less NInf (bidder_score w2 d o' (length (bidders f)) k) \<longrightarrow>
            (\<exists>j. j \<in> set (bidders f) \<and> eligible w2 d j \<and>
                 fare_at (fareBoard d2) o' dst t = Some (f\<lparr>taxi := int j\<rparr>) \<and>
                 AllocateFare o' (taxis d ! j) \<in> set calls2))"
proof (intro conjI impI allI)
  note T = clockTick_fare[OF assms(1-4)]
  have after: "fare_after_tick w d o' f
      = (case winner w d o' f of None \<Rightarrow> f | Some k \<Rightarrow> f\<lparr>taxi := int k\<rparr>)"
    using assms(5-7) by (simp add: fare_after_tick_def)
  have cs: "calls_after_tick w d o' dst f
      = (case winner w d o' f of None \<Rightarrow> [] | Some k \<Rightarrow> [AllocateFare o' (taxis d ! k)])"
    using assms(5-7) by (simp add: calls_after_tick_def)
  show "(\<exists>k. k \<in> set (bidders f) \<and> k < length (taxis d) \<and>
               onDuty (deref w (taxis d ! k)) \<and> 0 < account (deref w (taxis d ! k)) \<and>
               fare_at (fareBoard d') o' dst t = Some (f\<lparr>taxi := int k\<rparr>) \<and>
               AllocateFare o' (taxis d ! k) \<in> set calls)
          \<or> fare_at (fareBoard d') o' dst t = Some f"
  proof (cases "winner w d o' f")
    case None
    then show ?thesis using T(1) after by simp
  next
    case (Some k)
    from winner_eligible[OF Some] have "k \<in> set (bidders f)" "eligible w d k" .
    moreover have "fare_at (fareBoard d') o' dst t = Some (f\<lparr>taxi := int k\<rparr>)"
      using T(1) after Some by simp
    moreover have "AllocateFare o' (taxis d ! k) \<in> set calls" using T(2) cs Some by simp
    ultimately show ?thesis by (auto simp: eligible_def)
  qed
  show "fare_at (fareBoard d') o' dst t = Some f" if "\<not> (\<exists>k\<in>set (bidders f). eligible w d k)"
  proof (cases "winner w d o' f")
    case None
    then show ?thesis using T(1) after by simp
  next
    case (Some k)
    from winner_eligible[OF Some] that show ?thesis by blast
  qed
  fix w2 d2 calls2 k
  assume a: "fare_at (fareBoard d') o' dst t = Some f \<and>
            clockTick d' w2 = Inr (d2, calls2) \<and> parent d' = wid w2 \<and>
            k \<in> set (bidders f) \<and> eligible w2 d k \<and>
            py_less NInf (bidder_score w2 d o' (length (bidders f)) k)"
  then have t2: "clockTick d' w2 = Inr (d2, calls2)" and own2: "parent d' = wid w2"
    and f2: "fare_at (fareBoard d') o' dst t = Some f" by simp_all
  note T2 = clockTick_fare[OF t2 own2 T(3) f2]
  have ro: "taxis d' = taxis d" by (rule T(4))
  have "\<not> isl (allocate_loop w2 d' o' (length (bidders f)) (bidders f) (None, NInf))"
    using T2(5) assms(5-7) by (simp add: loop_returned_def)
  then obtain acc where
    "allocate_loop w2 d o' (length (bidders f)) (bidders f) (None, NInf) = Inr acc"
    unfolding allocate_loop_roster[OF ro]
    by (cases "allocate_loop w2 d o' (length (bidders f)) (bidders f) (None, NInf)") simp_all
  from winner_exists[OF this] a obtain j where j: "winner w2 d o' f = Some j" by blast
  then have j': "winner w2 d' o' f = Some j" using winner_roster[OF ro] by simp
  from winner_eligible[OF j] have "j \<in> set (bidders f)" "eligible w2 d j" .
  moreover have "fare_at (fareBoard d2) o' dst t = Some (f\<lparr>taxi := int j\<rparr>)"
    using T2(1) j' assms(5-7) by (simp add: fare_after_tick_def)
  moreover have "AllocateFare o' (taxis d ! j) \<in> set calls2"
    using T2(2) j' assms(5-7) ro by (simp add: calls_after_tick_def)
  ultimately show "\<exists>j. j \<in> set (bidders f) \<and> eligible w2 d j \<and>
                 fare_at (fareBoard d2) o' dst t = Some (f\<lparr>taxi := int j\<rparr>) \<and>
                 AllocateFare o' (taxis d ! j) \<in> set calls2" by blast
qed

theorem allocation_winner_on_duty_and_solvent_witness:
  "clockTick ex_d3 ex_world_off = Inr (ex_d3, []) \<and> parent ex_d3 = wid ex_world_off \<and>
   board_ok (fareBoard ex_d3) \<and>
   fare_at (fareBoard ex_d3) (0, 0) (3, 4) 0
     = Some ((newFareEntry (0, 0) (3, 4) 0)\<lparr>price := Fin 30, bidders := [1, 0]\<rparr>) \<and>
   \<not> eligible ex_world_off ex_d3 0 \<and> \<not> eligible ex_world_off ex_d3 1 \<and>
   clockTick ex_d3 ex_world = Inr (ex_d4, [AllocateFare (0, 0) 9]) \<and> parent ex_d3 = wid ex_world \<and>
   eligible ex_world ex_d3 1 \<and>
   bidder_score ex_world ex_d3 (0, 0) 2 1 = Fin (2440575698065861 / 2 ^ 49) \<and>
   (\<exists>j. j \<in> set [1, 0] \<and> eligible ex_world ex_d3 j \<and>
        fare_at (fareBoard ex_d4) (0, 0) (3, 4) 0
          = Some ((newFareEntry (0, 0) (3, 4) 0)\<lparr>price := Fin 30, bidders := [1, 0], taxi := int j\<rparr>) \<and>
        AllocateFare (0, 0) (taxis ex_d3 ! j) \<in> set [AllocateFare (0, 0) 9])"
proof -
  define f where "f = (newFareEntry (0, 0) (3, 4) 0)\<lparr>price := Fin 30, bidders := [1, 0]\<rparr>"
  have h2: "parent ex_d3 = wid ex_world_off" "parent ex_d3 = wid ex_world"
    by (simp_all add: ex_defs ex_d3_def ex_world_off_def)
  have h3: "board_ok (fareBoard ex_d3)" by (simp add: ex_defs ex_d3_def board_ok_def)
  have h4: "fare_at (fareBoard ex_d3) (0, 0) (3, 4) 0 = Some f"
    by (simp add: ex_d3_def fare_at_def f_def)
  have h5: "price f \<noteq> Fin 0" "taxi f < 0" "bidders f \<noteq> []" "bidders f = [1, 0]"
    by (simp_all add: f_def newFareEntry_def)
  have ne: "\<not> eligible ex_world_off ex_d3 0" "\<not> eligible ex_world_off ex_d3 1"
    by (simp_all add: eligible_def ex_defs ex_d3_def ex_world_off_def)
  have e1: "eligible ex_world ex_d3 1" by (simp add: eligible_def ex_defs ex_d3_def)
  have "length (bidders f) = 2" by (simp add: h5(4))
  then have sc: "py_less NInf (bidder_score ex_world ex_d3 (0, 0) (length (bidders f)) 1)"
    by (simp only: ex_scores(2)) simp
  have k: "(1::nat) \<in> set (bidders f)" by (simp add: h5(4))
  from allocation_winner_on_duty_and_solvent[OF ex_tick_off h2(1) h3 h4 h5(1-3)]
  have "\<forall>w2 d2 calls2 k.
            fare_at (fareBoard ex_d3) (0, 0) (3, 4) 0 = Some f \<and>
            clockTick ex_d3 w2 = Inr (d2, calls2) \<and> parent ex_d3 = wid w2 \<and>
            k \<in> set (bidders f) \<and> eligible w2 ex_d3 k \<and>
            py_less NInf (bidder_score w2 ex_d3 (0, 0) (length (bidders f)) k) \<longrightarrow>
            (\<exists>j. j \<in> set (bidders f) \<and> eligible w2 ex_d3 j \<and>
                 fare_at (fareBoard d2) (0, 0) (3, 4) 0 = Some (f\<lparr>taxi := int j\<rparr>) \<and>
                 AllocateFare (0, 0) (taxis ex_d3 ! j) \<in> set calls2)"
    by blast
  from this[rule_format, of ex_world ex_d4 "[AllocateFare (0, 0) 9]" 1] h4 ex_tick_alloc h2(2) k e1 sc
  have "\<exists>j. j \<in> set (bidders f) \<and> eligible ex_world ex_d3 j \<and>
                 fare_at (fareBoard ex_d4) (0, 0) (3, 4) 0 = Some (f\<lparr>taxi := int j\<rparr>) \<and>
                 AllocateFare (0, 0) (taxis ex_d3 ! j) \<in> set [AllocateFare (0, 0) 9]"
    by blast
  then have "\<exists>j. j \<in> set [1, 0] \<and> eligible ex_world ex_d3 j \<and>
        fare_at (fareBoard ex_d4) (0, 0) (3, 4) 0
          = Some ((newFareEntry (0, 0) (3, 4) 0)\<lparr>price := Fin 30, bidders := [1, 0], taxi := int j\<rparr>) \<and>
        AllocateFare (0, 0) (taxis ex_d3 ! j) \<in> set [AllocateFare (0, 0) 9]"
    unfolding h5(4) f_def by simp
  then show ?thesis
    using ex_tick_off ex_tick_alloc h2 h3 h4[unfolded f_def] ne e1 ex_scores(2) by simp
qed







section \<open>The tick of the dispatcher returns\<close>

lemma shape_level2:
  "map (\<lambda>(dst, tm). (dst, map fst tm)) (AList.map_entry k (AList.map_entry t g) dm)
   = map (\<lambda>(dst, tm). (dst, map fst tm)) dm"
  by (induction dm) (auto simp: map_fst_map_entry)

lemma shape_modFare: "shape (modFare b o' dst t g) = shape b"
  unfolding modFare_def shape_def
  by (induction b) (auto simp: shape_level2)

lemma shape_present:
  "fare_at b o' dst t \<noteq> None \<longleftrightarrow>
     (\<exists>D T. map_of (shape b) o' = Some D \<and> map_of D dst = Some T \<and> t \<in> set T)"
proof -
  have s1: "map_of (shape b) o' = map_option (map (\<lambda>(dst, tm). (dst, map fst tm))) (map_of b o')"
    unfolding shape_def by (simp add: map_of_map)
  have s2: "map_of (map (\<lambda>(dst, tm). (dst, map fst tm)) dm) dst = map_option (map fst) (map_of dm dst)"
    for dm :: "(loc \<times> (int \<times> FareEntry) list) list"
    by (simp add: map_of_map)
  have s3: "t \<in> fst ` set tm \<longleftrightarrow> map_of tm t \<noteq> None" for tm :: "(int \<times> FareEntry) list"
    by (simp add: map_of_eq_None_iff)
  show ?thesis
  proof (cases "map_of b o'")
    case None
    then show ?thesis by (simp add: fare_at_def s1)
  next
    case (Some dm)
    show ?thesis
    proof (cases "map_of dm dst")
      case None
      then show ?thesis using Some by (simp add: fare_at_def s1 s2)
    next
      case tm: (Some tm)
      show ?thesis using Some tm s3[of tm] by (simp add: fare_at_def s1 s2)
    qed
  qed
qed

lemma shape_same_present:
  assumes "shape b' = shape b"
  shows "fare_at b' o' dst t \<noteq> None \<longleftrightarrow> fare_at b o' dst t \<noteq> None"
  unfolding shape_present assms ..

lemma py_div_returns: "b \<noteq> Fin 0 \<Longrightarrow> \<exists>q. py_div a b = Inr q"
  by (cases a; cases b) simp_all

lemma py_int_div_returns:
  "b \<noteq> 0 \<Longrightarrow> is_fin (rnd (of_int a / of_int b)) \<Longrightarrow> \<exists>q. py_int_div a b = Inr q"
  by (cases "rnd (of_int a / of_int b)") (simp_all add: py_int_div_def)

lemma rnd_unit_fraction: "is_fin (rnd (1 / (1 + real n)))"
proof -
  have "\<exists>y. rnd (1 / (1 + real n)) = Fin y \<and> 0 \<le> y \<and> y \<le> 1"
    using is_double_of_int[of 0] is_double_of_int[of 1]
    by (intro rnd_between) simp_all
  then show ?thesis by auto
qed

lemma priority_score_returns:
  assumes "py_add (Fin 1) (Fin (income t)) \<noteq> Fin 0"
    and "is_fin (rnd (of_int (simTime w - lastFareCompletionTime t) / 1000))"
  shows "\<exists>s. priority_score w o' n t = Inr s"
proof -
  have "pickup_duration w o' t \<noteq> 0"
    by (simp add: pickup_duration_def Let_def round64_tenth)
  then obtain q1 where q1: "py_div (Fin 1) (Fin (pickup_duration w o' t)) = Inr q1" by simp
  from py_div_returns[OF assms(1)] obtain q2 where
    q2: "py_div (Fin 1) (py_add (Fin 1) (Fin (income t))) = Inr q2" by blast
  have "is_fin (rnd (of_int 1 / of_int (1 + int n)))" using rnd_unit_fraction[of n] by simp
  from py_int_div_returns[OF _ this] obtain q3 where q3: "py_int_div 1 (1 + int n) = Inr q3" by auto
  from py_int_div_returns[of 1000 "simTime w - lastFareCompletionTime t"] assms(2)
  obtain q4 where q4: "py_int_div (simTime w - lastFareCompletionTime t) 1000 = Inr q4" by auto
  show ?thesis unfolding priority_score_def Let_def q1 q2 q3 q4 by (simp add: bindE_def)
qed

lemma allocate_loop_returns:
  assumes "scores_ok w (taxis d)"
  shows "\<exists>acc'. allocate_loop w d o' n ks acc = Inr acc'"
proof (induction ks arbitrary: acc)
  case Nil
  then show ?case by simp
next
  case (Cons k ks)
  obtain sel hi where acc: "acc = (sel, hi)" by (cases acc)
  have ps: "\<exists>s. priority_score w o' n (deref w (taxis d ! k)) = Inr s"
    if "k < length (taxis d)"
  proof -
    have "taxis d ! k \<in> set (taxis d)" using that by simp
    then show ?thesis
      using assms by (intro priority_score_returns) (auto simp: scores_ok_def list_all_iff)
  qed
  show ?case
  proof (cases "k < length (taxis d)")
    case True
    from ps[OF True] obtain s where "priority_score w o' n (deref w (taxis d ! k)) = Inr s" ..
    then show ?thesis unfolding acc using Cons.IH True by (simp add: Let_def)
  next
    case False
    then show ?thesis unfolding acc using Cons.IH by simp
  qed
qed

lemma allocateFare_returns:
  assumes "scores_ok w (taxis d)" and "fare_at (fareBoard d) o' dst t = Some f"
  shows "\<exists>d' cs. allocateFare w d o' dst t = Inr (d', cs)"
proof -
  have gf: "getFare (fareBoard d) o' dst t = Inr f" using assms(2) by (simp add: getFare_fare_at)
  from allocate_loop_returns[OF assms(1)] obtain sel hi where
    loop: "allocate_loop w d o' (length (bidders f)) (bidders f) (None, NInf) = Inr (sel, hi)"
    by (metis surj_pair)
  show ?thesis
  proof (cases sel)
    case None
    then show ?thesis using gf loop by (simp add: allocateFare_def bindE_def)
  next
    case (Some k)
    then have "winner w d o' f = Some k" using loop by (simp add: winner_def)
    then have "eligible w d k" by (rule winner_eligible)
    then have "k < length (taxis d)" by (simp add: eligible_def)
    then have "py_index (taxis d) (int k) = Inr (taxis d ! k)" by (simp add: py_index_nat)
    then show ?thesis using gf loop Some by (simp add: allocateFare_def bindE_def)
  qed
qed

lemma tickFare_returns:
  assumes "tick_frame b roster s" and "scores_ok w roster" and "fare_at b o' dst t \<noteq> None"
  shows "\<exists>s'. tickFare w o' dst t s = Inr s' \<and> tick_frame b roster s'"
proof -
  obtain d calls where s: "s = (d, calls)" by (cases s)
  from assms(1) have sh: "shape (fareBoard d) = shape b" and ro: "taxis d = roster"
    by (simp_all add: tick_frame_def s)
  from assms(3) shape_same_present[OF sh] obtain f where f: "fare_at (fareBoard d) o' dst t = Some f"
    by blast
  then have gf: "getFare (fareBoard d) o' dst t = Inr f" by (simp add: getFare_fare_at)
  have "\<exists>s'. tickFare w o' dst t (d, calls) = Inr s'"
  proof (cases "price f \<noteq> Fin 0 \<and> taxi f < 0 \<and> 0 < length (bidders f)")
    case True
    from allocateFare_returns[OF _ f, of w] assms(2) ro obtain d' cs where
      "allocateFare w d o' dst t = Inr (d', cs)" by auto
    then show ?thesis using gf True by (simp add: tickFare_def bindE_def)
  next
    case False
    then show ?thesis using gf by (auto simp: tickFare_def bindE_def Let_def)
  qed
  then obtain d' calls' where r: "tickFare w o' dst t (d, calls) = Inr (d', calls')" by auto
  from tickFare_board(1)[OF r f] obtain g where "d' = d\<lparr>fareBoard := modFare (fareBoard d) o' dst t g\<rparr>"
    by blast
  then have "tick_frame b roster (d', calls')" using sh ro by (simp add: tick_frame_def shape_modFare)
  then show ?thesis using r unfolding s by blast
qed

lemma times_of_shape:
  "times_of b o' dst = (case map_of (shape b) o' of None \<Rightarrow> None | Some D \<Rightarrow> map_of D dst)"
proof -
  have s1: "map_of (shape b) o' = map_option (map (\<lambda>(dst, tm). (dst, map fst tm))) (map_of b o')"
    unfolding shape_def by (simp add: map_of_map)
  have s2: "map_of (map (\<lambda>(dst, tm). (dst, map fst tm)) dm) dst = map_option (map fst) (map_of dm dst)"
    for dm :: "(loc \<times> (int \<times> FareEntry) list) list"
    by (simp add: map_of_map)
  show ?thesis unfolding times_of_def s1 by (cases "map_of b o'") (simp_all add: s2)
qed

lemma dests_of_shape: "dests_of b o' = map_option (map fst) (map_of (shape b) o')"
proof -
  have s1: "map_of (shape b) o' = map_option (map (\<lambda>(dst, tm). (dst, map fst tm))) (map_of b o')"
    unfolding shape_def by (simp add: map_of_map)
  have "map fst (map (\<lambda>(dst, tm). (dst, map fst tm)) dm) = map fst dm"
    for dm :: "(loc \<times> (int \<times> FareEntry) list) list"
    by (induction dm) auto
  then show ?thesis unfolding dests_of_def s1 by (cases "map_of b o'") simp_all
qed

lemma times_of_present:
  assumes "times_of b o' dst = Some T" and "t \<in> set T"
  shows "fare_at b o' dst t \<noteq> None"
proof -
  from assms(1) obtain dm tm where dm: "map_of b o' = Some dm" "map_of dm dst = Some tm"
    "T = map fst tm" by (auto simp: times_of_def split: option.splits)
  have "t \<in> fst ` set tm" using assms(2) dm(3) by simp
  then have "map_of tm t \<noteq> None" by (simp only: map_of_eq_None_iff not_not)
  then show ?thesis using dm by (simp add: fare_at_def)
qed

lemma dests_of_present:
  assumes "dests_of b o' = Some D" and "dst \<in> set D"
  shows "times_of b o' dst \<noteq> None"
proof -
  from assms(1) obtain dm where dm: "map_of b o' = Some dm" "D = map fst dm"
    by (auto simp: dests_of_def)
  have "dst \<in> fst ` set dm" using assms(2) dm(2) by simp
  then have "map_of dm dst \<noteq> None" by (simp only: map_of_eq_None_iff not_not)
  then show ?thesis using dm by (auto simp: times_of_def)
qed

lemma tickDest_returns:
  assumes fr: "tick_frame b roster s" and inc: "scores_ok w roster"
    and tm: "times_of b o' dst = Some T"
  shows "\<exists>s'. tickDest w o' dst s = Inr s' \<and> tick_frame b roster s'"
proof -
  have sh: "shape (fareBoard (fst s)) = shape b" using fr by (simp add: tick_frame_def)
  have "times_of (fareBoard (fst s)) o' dst = Some T" using tm unfolding times_of_shape sh .
  then obtain dm' tm' where cur: "map_of (fareBoard (fst s)) o' = Some dm'"
    "map_of dm' dst = Some tm'" "map fst tm' = T"
    by (auto simp: times_of_def split: option.splits)
  have "\<exists>s'. forE (tickFare w o' dst) (sort T) s = Inr s' \<and> tick_frame b roster s'"
  proof (rule forE_total[where I = "\<lambda>pre s. tick_frame b roster s" and pre = "[]"])
    show "tick_frame b roster s" by (rule fr)
  next
    fix pre :: "int list" and k s1
    assume "tick_frame b roster s1" and "k \<in> set (sort T)"
    then have "tick_frame b roster s1" and "k \<in> set T" by simp_all
    then show "\<exists>s'. tickFare w o' dst k s1 = Inr s' \<and> tick_frame b roster s'"
      using tickFare_returns[OF _ inc times_of_present[OF tm]] by blast
  qed
  then show ?thesis using cur by (simp add: tickDest_def bindE_def py_get_def)
qed

lemma tickOrigin_returns:
  assumes fr: "tick_frame b roster s" and inc: "scores_ok w roster"
    and ds: "dests_of b o' = Some D"
  shows "\<exists>s'. tickOrigin w o' s = Inr s' \<and> tick_frame b roster s'"
proof -
  have sh: "shape (fareBoard (fst s)) = shape b" using fr by (simp add: tick_frame_def)
  have "dests_of (fareBoard (fst s)) o' = Some D" using ds unfolding dests_of_shape sh .
  then obtain dm' where cur: "map_of (fareBoard (fst s)) o' = Some dm'" "map fst dm' = D"
    by (auto simp: dests_of_def)
  have "\<exists>s'. forE (tickDest w o') D s = Inr s' \<and> tick_frame b roster s'"
  proof (rule forE_total[where I = "\<lambda>pre s. tick_frame b roster s" and pre = "[]"])
    show "tick_frame b roster s" by (rule fr)
  next
    fix pre :: "loc list" and k s1
    assume a: "tick_frame b roster s1" and "k \<in> set D"
    then obtain T where "times_of b o' k = Some T" using dests_of_present[OF ds] by blast
    from tickDest_returns[OF a inc this]
    show "\<exists>s'. tickDest w o' k s1 = Inr s' \<and> tick_frame b roster s'" .
  qed
  then show ?thesis using cur by (simp add: tickOrigin_def bindE_def py_get_def)
qed

text \<open>The tick of the dispatcher returns unless the score of a bidder raises.\<close>

lemma clockTick_returns:
  assumes "scores_ok w (taxis d)"
  shows "\<exists>d' calls. clockTick d w = Inr (d', calls)"
proof (cases "parent d = wid w")
  case True
  have "\<exists>s'. forE (tickOrigin w) (map fst (fareBoard d)) (d, []) = Inr s'
             \<and> tick_frame (fareBoard d) (taxis d) s'"
  proof (rule forE_total[where I = "\<lambda>pre s. tick_frame (fareBoard d) (taxis d) s" and pre = "[]"])
    show "tick_frame (fareBoard d) (taxis d) (d, [])" by (simp add: tick_frame_def)
  next
    fix pre :: "loc list" and k s1
    assume a: "tick_frame (fareBoard d) (taxis d) s1" and "k \<in> set (map fst (fareBoard d))"
    then have "k \<in> fst ` set (fareBoard d)" by simp
    then have "map_of (fareBoard d) k \<noteq> None" by (simp only: map_of_eq_None_iff not_not)
    then obtain D where "dests_of (fareBoard d) k = Some D" by (auto simp: dests_of_def)
    from tickOrigin_returns[OF a assms this]
    show "\<exists>s'. tickOrigin w k s1 = Inr s' \<and> tick_frame (fareBoard d) (taxis d) s'" .
  qed
  then show ?thesis using True by (auto simp: clockTick_def)
next
  case False
  then show ?thesis by (simp add: clockTick_def)
qed

section \<open>Pricing\<close>

lemma ex_tick1: "clockTick ex_d1 ex_world = Inr (ex_d2, [BroadcastFare (0, 0) (3, 4) (Fin 30)])"
  by (simp add: tick_defs ex_defs ex_d2_def rnd_eval)

lemma ex_tick_busy:
  "clockTick ex_d1 ex_world_busy
     = Inr (ex_d2_busy, [BroadcastFare (0, 0) (3, 4) (Fin (8373880557142017 / 2 ^ 46))])"
  by (simp add: tick_defs ex_defs ex_d2_busy_def ex_world_busy_def rnd_eval)

lemma costFare_on_duty:
  assumes "0 < active_taxis w"
  shows "costFare w f
         = py_min (py_mult (py_add (Fin 25) (Fin (fare_travel_time w f)))
                           (py_max (Fin 1) (rnd (real (length (fareQ w)) / real (active_taxis w)))))
                  (py_mult (Fin 10) (Fin (fare_travel_time w f)))"
  using assms by (simp add: costFare_def computeSupplyRatio_def Let_def)

lemma costFare_surge:
  assumes "active_taxis w = 0"
  shows "costFare w f = py_min (py_mult (py_add (Fin 25) (Fin (fare_travel_time w f))) PInf)
                               (py_mult (Fin 10) (Fin (fare_travel_time w f)))"
  using assms by (simp add: costFare_def computeSupplyRatio_def Let_def)

lemma py_min_PInf: "rnd x = c \<Longrightarrow> py_min PInf c = c"
  by (rule rnd_cases[of x]) (auto simp: py_min_def)

lemma costFare_surge_ceiling:
  assumes "active_taxis w = 0" and "is_double (fare_travel_time w f)"
    and "- 25 < fare_travel_time w f"
  shows "costFare w f = py_mult (Fin 10) (Fin (fare_travel_time w f))"
proof -
  define tt where "tt = fare_travel_time w f"
  have "is_double 25" using is_double_of_int[of 25] by simp
  from double_sum_pos[OF this assms(2)] assms(3) have "pow2 (- 1074) \<le> 25 + tt"
    by (simp add: tt_def)
  from rnd_ge[OF is_double_pow2 this] pow2_pos[of "- 1074"]
  have "rnd (25 + tt) = PInf \<or> (\<exists>y. rnd (25 + tt) = Fin y \<and> 0 < y)" by force
  then have "py_mult (py_add (Fin 25) (Fin tt)) PInf = PInf" by auto
  then show ?thesis
    unfolding costFare_surge[OF assms(1)] tt_def[symmetric]
    by (simp add: py_min_PInf[of "10 * tt"])
qed

lemma supply_ratio_ge_one:
  "computeSupplyRatio w = PInf \<or> (\<exists>r. computeSupplyRatio w = Fin r \<and> 1 \<le> r)"
proof (cases "active_taxis w = 0")
  case True
  then show ?thesis by (simp add: computeSupplyRatio_def)
next
  case False
  define q where "q = rnd (real (length (fareQ w)) / real (active_taxis w))"
  have "q = PInf \<or> (\<exists>y. q = Fin y \<and> 0 \<le> y)"
    unfolding q_def using is_double_zero by (intro rnd_ge) simp_all
  then have "py_max (Fin 1) q = PInf \<or> (\<exists>r. py_max (Fin 1) q = Fin r \<and> 1 \<le> r)"
    by (auto simp: py_max_def)
  then show ?thesis using False by (simp add: computeSupplyRatio_def Let_def q_def)
qed

lemma costFare_positive:
  assumes "is_double (fare_travel_time w f)" and "0 < fare_travel_time w f"
  shows "py_less (Fin 0) (costFare w f)"
proof -
  define tt where "tt = fare_travel_time w f"
  have tt: "is_double tt" "0 < tt" using assms by (simp_all add: tt_def)
  have d25: "is_double 25" using is_double_of_int[of 25] by simp
  have a: "rnd (25 + tt) = PInf \<or> (\<exists>y. rnd (25 + tt) = Fin y \<and> 25 \<le> y)"
    using tt(2) by (intro rnd_ge[OF d25]) simp
  have b: "py_less (Fin 0) (py_mult (py_add (Fin 25) (Fin tt)) (computeSupplyRatio w))"
  proof -
    from supply_ratio_ge_one[of w] show ?thesis
    proof
      assume "computeSupplyRatio w = PInf"
      then show ?thesis using a by auto
    next
      assume "\<exists>r. computeSupplyRatio w = Fin r \<and> 1 \<le> r"
      then obtain r where r: "computeSupplyRatio w = Fin r" "1 \<le> r" by blast
      from a show ?thesis
      proof
        assume "rnd (25 + tt) = PInf"
        then show ?thesis using r by simp
      next
        assume "\<exists>y. rnd (25 + tt) = Fin y \<and> 25 \<le> y"
        then obtain y where y: "rnd (25 + tt) = Fin y" "25 \<le> y" by blast
        have "25 * 1 \<le> y * r" using y(2) r(2) by (intro mult_mono) simp_all
        then have "rnd (y * r) = PInf \<or> (\<exists>z. rnd (y * r) = Fin z \<and> 25 \<le> z)"
          by (intro rnd_ge[OF d25]) simp
        then show ?thesis using y(1) r(1) by auto
      qed
    qed
  qed
  have "rnd (10 * tt) = PInf \<or> (\<exists>u. rnd (10 * tt) = Fin u \<and> tt \<le> u)"
    using tt by (intro rnd_ge) simp_all
  then have c: "py_less (Fin 0) (py_mult (Fin 10) (Fin tt))" using tt(2) by auto
  show ?thesis
    unfolding costFare_def Let_def tt_def[symmetric] using b c by (simp add: py_min_def)
qed

text \<open>
  Claim C1, amended. The tick of a dispatcher in its own world returns, provided the
  score of no taxi of the roster raises; and a fare that is unpriced when its dispatcher
  ticks is priced by that tick, and broadcast, at
  \<open>min ((25 + travel time) * supply ratio) (10 * travel time)\<close> computed in floats, the
  supply ratio being \<open>max 1 (outstanding fares / taxis on duty)\<close>, and infinite when no
  taxi is on duty, in which case the price is the ceiling \<open>10 * travel time\<close> as long as
  \<open>25 + travel time\<close> is positive. The price is strictly positive when the travel time
  is.
\<close>

theorem tick_prices_by_formula:
  assumes "parent d = wid w"
    and "board_ok (fareBoard d)" and "fare_at (fareBoard d) o' dst t = Some f"
    and "price f = Fin 0"
  shows "(scores_ok w (taxis d) \<longrightarrow> (\<exists>d' calls. clockTick d w = Inr (d', calls))) \<and>
     (\<forall>d' calls. clockTick d w = Inr (d', calls) \<longrightarrow>
       (\<exists>f'. fare_at (fareBoard d') o' dst t = Some f' \<and>
        BroadcastFare o' dst (price f') \<in> set calls \<and>
        (0 < active_taxis w \<longrightarrow>
           price f' = py_min (py_mult (py_add (Fin 25) (Fin (fare_travel_time w f)))
                                      (py_max (Fin 1) (rnd (real (length (fareQ w))
                                                            / real (active_taxis w)))))
                             (py_mult (Fin 10) (Fin (fare_travel_time w f)))) \<and>
        (active_taxis w = 0 \<longrightarrow>
           price f' = py_min (py_mult (py_add (Fin 25) (Fin (fare_travel_time w f))) PInf)
                             (py_mult (Fin 10) (Fin (fare_travel_time w f)))) \<and>
        (active_taxis w = 0 \<and> is_double (fare_travel_time w f) \<and> - 25 < fare_travel_time w f \<longrightarrow>
           price f' = py_mult (Fin 10) (Fin (fare_travel_time w f))) \<and>
        (is_double (fare_travel_time w f) \<and> 0 < fare_travel_time w f \<longrightarrow>
           py_less (Fin 0) (price f'))))"
proof (intro conjI allI impI)
  assume "scores_ok w (taxis d)"
  then show "\<exists>d' calls. clockTick d w = Inr (d', calls)" by (rule clockTick_returns)
next
  fix d' calls
  assume tick: "clockTick d w = Inr (d', calls)"
  note T = clockTick_fare[OF tick assms(1-3)]
  define f' where "f' = f\<lparr>price := costFare w f\<rparr>"
  have f': "fare_at (fareBoard d') o' dst t = Some f'"
    using T(1) assms(4) by (simp add: fare_after_tick_def f'_def)
  have p: "price f' = costFare w f" by (simp add: f'_def)
  have bc: "BroadcastFare o' dst (price f') \<in> set calls"
    using T(2) assms(4) by (simp add: calls_after_tick_def p)
  show "\<exists>f'. fare_at (fareBoard d') o' dst t = Some f' \<and>
        BroadcastFare o' dst (price f') \<in> set calls \<and>
        (0 < active_taxis w \<longrightarrow>
           price f' = py_min (py_mult (py_add (Fin 25) (Fin (fare_travel_time w f)))
                                      (py_max (Fin 1) (rnd (real (length (fareQ w))
                                                            / real (active_taxis w)))))
                             (py_mult (Fin 10) (Fin (fare_travel_time w f)))) \<and>
        (active_taxis w = 0 \<longrightarrow>
           price f' = py_min (py_mult (py_add (Fin 25) (Fin (fare_travel_time w f))) PInf)
                             (py_mult (Fin 10) (Fin (fare_travel_time w f)))) \<and>
        (active_taxis w = 0 \<and> is_double (fare_travel_time w f) \<and> - 25 < fare_travel_time w f \<longrightarrow>
           price f' = py_mult (Fin 10) (Fin (fare_travel_time w f))) \<and>
        (is_double (fare_travel_time w f) \<and> 0 < fare_travel_time w f \<longrightarrow>
           py_less (Fin 0) (price f'))"
    apply (rule exI[of _ f'])
    using f' bc costFare_on_duty[of w f] costFare_surge[of w f] costFare_surge_ceiling[of w f]
      costFare_positive[of w f] unfolding p by blast
qed

theorem tick_prices_by_formula_witness:
  "parent ex_d1 = wid ex_world_busy \<and> board_ok (fareBoard ex_d1) \<and>
   fare_at (fareBoard ex_d1) (0, 0) (3, 4) 0 = Some (newFareEntry (0, 0) (3, 4) 0) \<and>
   price (newFareEntry (0, 0) (3, 4) 0) = Fin 0 \<and>
   scores_ok ex_world_busy (taxis ex_d1) \<and>
   clockTick ex_d1 ex_world_busy
     = Inr (ex_d2_busy, [BroadcastFare (0, 0) (3, 4) (Fin (8373880557142017 / 2 ^ 46))]) \<and>
   fare_travel_time ex_world_busy (newFareEntry (0, 0) (3, 4) 0) = 26 \<and> is_double 26 \<and>
   active_taxis ex_world_busy = 3 \<and> length (fareQ ex_world_busy) = 7 \<and>
   rnd (7 / 3) = Fin (5254199565265579 / 2 ^ 51) \<and>
   (\<exists>f'. fare_at (fareBoard ex_d2_busy) (0, 0) (3, 4) 0 = Some f' \<and>
         price f' = Fin (8373880557142017 / 2 ^ 46) \<and> py_less (Fin 119) (price f'))"
proof -
  have h2: "parent ex_d1 = wid ex_world_busy" by (simp add: ex_defs ex_world_busy_def)
  have h3: "board_ok (fareBoard ex_d1)" by (simp add: ex_defs board_ok_def)
  have h4: "fare_at (fareBoard ex_d1) (0, 0) (3, 4) 0 = Some (newFareEntry (0, 0) (3, 4) 0)"
    by (simp add: ex_d1_def fare_at_def)
  have h5: "price (newFareEntry (0, 0) (3, 4) 0) = Fin 0" by (simp add: newFareEntry_def)
  have sc: "scores_ok ex_world_busy (taxis ex_d1)"
    by (simp add: scores_ok_def ex_defs ex_world_busy_def rnd_eval)
  have tt: "fare_travel_time ex_world_busy (newFareEntry (0, 0) (3, 4) 0) = 26"
    by (simp add: fare_travel_time_def ex_defs ex_world_busy_def)
  have dbl: "is_double 26" using is_double_of_int[of 26] by simp
  have act: "active_taxis ex_world_busy = 3" by (simp add: active_taxis_def ex_defs ex_world_busy_def)
  have q: "length (fareQ ex_world_busy) = 7" by (simp add: ex_defs ex_world_busy_def)
  have r: "rnd (7 / 3) = Fin (5254199565265579 / 2 ^ 51)" by (simp add: rnd_eval)
  have m: "py_min (py_mult (py_add (Fin 25) (Fin 26)) (py_max (Fin 1) (rnd (7 / 3))))
                  (py_mult (Fin 10) (Fin 26)) = Fin (8373880557142017 / 2 ^ 46)"
    by (simp add: py_min_def py_max_def rnd_eval)
  from tick_prices_by_formula[OF h2 h3 h4 h5] ex_tick_busy
  have "\<exists>f'. fare_at (fareBoard ex_d2_busy) (0, 0) (3, 4) 0 = Some f' \<and>
         price f' = Fin (8373880557142017 / 2 ^ 46) \<and> py_less (Fin 0) (price f')"
    by (auto simp: tt act q m dbl)
  then have "\<exists>f'. fare_at (fareBoard ex_d2_busy) (0, 0) (3, 4) 0 = Some f' \<and>
         price f' = Fin (8373880557142017 / 2 ^ 46) \<and> py_less (Fin 119) (price f')"
    by auto
  then show ?thesis using ex_tick_busy h2 h3 h4 h5 sc tt dbl act q r by simp
qed

text \<open>
  Claim C1 as stated fails for a fare from a node to itself: its travel time is \<open>0\<close>,
  the price computed by the first tick after the request is \<open>min (25 * ratio) 0 = 0\<close>,
  which is not strictly positive.
\<close>

theorem price_zero_after_tick:
  "newFare ex_d0 ex_world (0, 0) (0, 0) 0 = Inr (ex_dAA, []) \<and>
   clockTick ex_dAA ex_world = Inr (ex_dAA, [BroadcastFare (0, 0) (0, 0) (Fin 0)]) \<and>
   map_option price (fare_at (fareBoard ex_dAA) (0, 0) (0, 0) 0) = Some (Fin 0) \<and>
   \<not> py_less (Fin 0) (Fin 0)"
  by (simp add: tick_defs ex_defs ex_dAA_def newFare_def fare_at_def rnd_eval)

section \<open>A price, once set\<close>

text \<open>A tick leaves a price that is not zero as it is, and so does any run of ticks.\<close>

lemma tickFare_frame:
  assumes "tickFare w o2 d2 t2 s = Inr s'" and "same_frame d s"
  shows "same_frame d s'"
proof -
  obtain d0 calls where s: "s = (d0, calls)" by (cases s)
  obtain d' calls' where s': "s' = (d', calls')" by (cases s')
  from assms obtain f2 where "fare_at (fareBoard d0) o2 d2 t2 = Some f2"
    using tickFare_Inr_fare s by (metis fst_conv)
  from tickFare_board(1)[OF assms(1)[unfolded s s'] this] show ?thesis
    using assms(2) unfolding s s' same_frame_def by (auto simp: board_ok_modFare)
qed

lemma tickDest_frame:
  assumes "tickDest w o2 d2 s = Inr s'" and "same_frame d s"
  shows "same_frame d s'"
proof -
  from assms(1) obtain ts where loop: "forE (tickFare w o2 d2) ts s = Inr s'"
    unfolding tickDest_def bindE_def by (auto split: sum.splits)
  show ?thesis
    by (rule forE_inv[OF loop, of "same_frame d"]) (use assms(2) tickFare_frame in blast)+
qed

lemma tickOrigin_frame:
  assumes "tickOrigin w o2 s = Inr s'" and "same_frame d s"
  shows "same_frame d s'"
proof -
  from assms(1) obtain ds where loop: "forE (tickDest w o2) ds s = Inr s'"
    unfolding tickOrigin_def bindE_def by (auto split: sum.splits)
  show ?thesis
    by (rule forE_inv[OF loop, of "same_frame d"]) (use assms(2) tickDest_frame in blast)+
qed

lemma clockTick_frame:
  assumes "clockTick d w = Inr (d', calls)"
  shows "board_ok (fareBoard d') = board_ok (fareBoard d) \<and> parent d' = parent d \<and> taxis d' = taxis d"
proof (cases "parent d = wid w")
  case True
  then have loop: "forE (tickOrigin w) (map fst (fareBoard d)) (d, []) = Inr (d', calls)"
    using assms by (simp add: clockTick_def)
  have "same_frame d (d', calls)"
    by (rule forE_inv[OF loop, of "same_frame d"]) (use tickOrigin_frame in \<open>auto simp: same_frame_def\<close>)
  then show ?thesis by (simp add: same_frame_def)
next
  case False
  then show ?thesis using assms by (simp add: clockTick_def)
qed

lemma clockTick_keeps_price:
  assumes "clockTick d w = Inr (d', calls)" and "parent d = wid w" and "board_ok (fareBoard d)"
    and "fare_at (fareBoard d) o' dst t = Some f" and "price f \<noteq> Fin 0"
  shows "\<exists>f'. fare_at (fareBoard d') o' dst t = Some f' \<and> price f' = price f"
proof -
  have "price (fare_after_tick w d o' f) = price f"
    using assms(5) by (simp add: fare_after_tick_def split: option.splits)
  then show ?thesis using clockTick_fare(1)[OF assms(1-4)] by simp
qed

lemma ticks_keep_price:
  assumes "ticks d ws = Inr dn" and "\<forall>w\<in>set ws. wid w = parent d" and "board_ok (fareBoard d)"
    and "fare_at (fareBoard d) o' dst t = Some f" and "price f \<noteq> Fin 0"
  shows "\<exists>fn. fare_at (fareBoard dn) o' dst t = Some fn \<and> price fn = price f"
  using assms
proof (induction ws arbitrary: d f)
  case Nil
  then show ?case by simp
next
  case (Cons w ws)
  from Cons.prems(1) obtain d1 calls where t1: "clockTick d w = Inr (d1, calls)"
    and rest: "ticks d1 ws = Inr dn"
    by (auto split: sum.splits prod.splits)
  have own: "parent d = wid w" using Cons.prems(2) by simp
  from clockTick_keeps_price[OF t1 own Cons.prems(3,4,5)] obtain f1 where
    f1: "fare_at (fareBoard d1) o' dst t = Some f1" and p1: "price f1 = price f" by blast
  have fr: "board_ok (fareBoard d1)" "parent d1 = parent d"
    using clockTick_frame[OF t1] Cons.prems(3) by simp_all
  have "\<forall>w\<in>set ws. wid w = parent d1" using Cons.prems(2) fr(2) by simp
  from Cons.IH[OF rest this fr(1) f1] p1 Cons.prems(5) show ?case by simp
qed

lemma ex_tick2:
  "clockTick ex_d2 (ex_world\<lparr>simTime := 11, fareQ := [(0, 0), (6, 8), (9, 9)]\<rparr>) = Inr (ex_d2, [])"
  by (simp add: tick_defs ex_defs ex_d2_def)

lemma ex_zero_bid: "fareBid ex_dAA (0, 0) 9 = ex_dAA_bid"
  by (simp add: fareBid_def ex_dAA_def ex_dAA_bid_def ex_d0_def newDispatcher_def newFareEntry_def
      modFare_def index_of_def)

lemma ex_zero_tick:
  "clockTick ex_dAA_bid (ex_world\<lparr>simTime := n\<rparr>)
     = Inr (ex_dAA_bid, [BroadcastFare (0, 0) (0, 0) (Fin 0)])"
  by (simp add: tick_defs ex_defs ex_dAA_bid_def rnd_eval)

text \<open>
  Claim C4, at the input where the code departs from it. A fare from a node to itself
  has travel time \<open>0\<close>, so the first tick after its request records the price \<open>0\<close>, the
  value by which \<^verbatim>\<open>clockTick\<close> recognises a fare that has no price yet. Every later tick
  therefore assigns the price and broadcasts the fare again, and never hands the fare to
  the allocation, although taxi \<open>9\<close>, on duty and solvent, has bid for it. And where the
  world estimates the trip from \<open>(0, 0)\<close> to \<open>(3, 4)\<close> at \<open>0\<close> on the first tick and at \<open>5\<close>
  on the second, the price recorded by the first tick, \<open>0\<close>, is replaced by \<open>30\<close> on the
  second.
\<close>

theorem zero_price_priced_at_every_tick:
  "newFare ex_d0 ex_world (0, 0) (0, 0) 0 = Inr (ex_dAA, []) \<and>
   clockTick ex_dAA ex_world = Inr (ex_dAA, [BroadcastFare (0, 0) (0, 0) (Fin 0)]) \<and>
   fareBid ex_dAA (0, 0) 9 = ex_dAA_bid \<and>
   eligible (ex_world\<lparr>simTime := 11\<rparr>) ex_dAA_bid 1 \<and>
   clockTick ex_dAA_bid (ex_world\<lparr>simTime := 11\<rparr>)
     = Inr (ex_dAA_bid, [BroadcastFare (0, 0) (0, 0) (Fin 0)]) \<and>
   clockTick ex_dAA_bid (ex_world\<lparr>simTime := 12\<rparr>)
     = Inr (ex_dAA_bid, [BroadcastFare (0, 0) (0, 0) (Fin 0)]) \<and>
   ticks ex_dAA_bid [ex_world\<lparr>simTime := 11\<rparr>, ex_world\<lparr>simTime := 12\<rparr>, ex_world\<lparr>simTime := 13\<rparr>]
     = Inr ex_dAA_bid \<and>
   map_option taxi (fare_at (fareBoard ex_dAA_bid) (0, 0) (0, 0) 0) = Some (- 1) \<and>
   map_option price (fare_at (fareBoard ex_dAA_bid) (0, 0) (0, 0) 0) = Some (Fin 0) \<and>
   newFare ex_d0 ex_world (0, 0) (3, 4) 0 = Inr (ex_d1, []) \<and>
   clockTick ex_d1 (ex_world\<lparr>travelTime := (\<lambda>a b. 0)\<rparr>)
     = Inr (ex_d1, [BroadcastFare (0, 0) (3, 4) (Fin 0)]) \<and>
   clockTick ex_d1 (ex_world\<lparr>simTime := 11\<rparr>)
     = Inr (ex_d2, [BroadcastFare (0, 0) (3, 4) (Fin 30)]) \<and>
   map_option price (fare_at (fareBoard ex_d1) (0, 0) (3, 4) 0) = Some (Fin 0) \<and>
   map_option price (fare_at (fareBoard ex_d2) (0, 0) (3, 4) 0) = Some (Fin 30)"
proof -
  have a: "newFare ex_d0 ex_world (0, 0) (0, 0) 0 = Inr (ex_dAA, [])"
    "newFare ex_d0 ex_world (0, 0) (3, 4) 0 = Inr (ex_d1, [])"
    by (simp_all add: ex_defs ex_dAA_def newFare_def bindE_def py_get_def)
  have b: "clockTick ex_dAA ex_world = Inr (ex_dAA, [BroadcastFare (0, 0) (0, 0) (Fin 0)])"
    by (simp add: tick_defs ex_defs ex_dAA_def rnd_eval)
  have c: "eligible (ex_world\<lparr>simTime := 11\<rparr>) ex_dAA_bid 1"
    by (simp add: eligible_def ex_defs ex_dAA_bid_def)
  have d: "ticks ex_dAA_bid [ex_world\<lparr>simTime := 11\<rparr>, ex_world\<lparr>simTime := 12\<rparr>, ex_world\<lparr>simTime := 13\<rparr>]
     = Inr ex_dAA_bid"
    by (simp add: ex_zero_tick)
  have e: "map_option taxi (fare_at (fareBoard ex_dAA_bid) (0, 0) (0, 0) 0) = Some (- 1)"
    "map_option price (fare_at (fareBoard ex_dAA_bid) (0, 0) (0, 0) 0) = Some (Fin 0)"
    "map_option price (fare_at (fareBoard ex_d1) (0, 0) (3, 4) 0) = Some (Fin 0)"
    "map_option price (fare_at (fareBoard ex_d2) (0, 0) (3, 4) 0) = Some (Fin 30)"
    by (simp_all add: ex_dAA_bid_def ex_d1_def ex_d2_def fare_at_def newFareEntry_def)
  have f: "clockTick ex_d1 (ex_world\<lparr>travelTime := (\<lambda>a b. 0)\<rparr>)
     = Inr (ex_d1, [BroadcastFare (0, 0) (3, 4) (Fin 0)])"
    by (simp add: tick_defs ex_defs rnd_eval)
  have g: "clockTick ex_d1 (ex_world\<lparr>simTime := 11\<rparr>)
     = Inr (ex_d2, [BroadcastFare (0, 0) (3, 4) (Fin 30)])"
    by (simp add: tick_defs ex_defs ex_d2_def rnd_eval)
  show ?thesis using a b ex_zero_bid c ex_zero_tick[of 11] ex_zero_tick[of 12] d e f g by simp
qed

section \<open>The bid of a taxi\<close>

text \<open>The profitability test of \<^verbatim>\<open>_bidOnFare\<close> is made in floats. A taxi at the origin of
  a fare, with a trip of \<open>25\<close> ahead and no traffic, is offered \<open>41.25\<close>, which is
  \<open>25 \<times> 1.1 \<times> 1.5\<close>; the product is \<^verbatim>\<open>41.25000000000001\<close> in floats, and the taxi does
  not bid.\<close>

lemma ex_bid_rounding:
  "bidOnFare (ex_world\<lparr>travelTime := (\<lambda>a b. if a = b then 0 else 25)\<rparr>) ex_taxi 0 (0, 0) (3, 4)
     (Fin (165 / 4)) = Inr False \<and>
   py_mult (py_mult (Fin 25) (rnd (11 / 10))) (rnd (15 / 10)) = Fin (5805421394657281 / 2 ^ 47)"
  by (simp add: bidOnFare_def ex_world_def ex_taxi_def bindE_def Let_def rnd_eval)

section \<open>A taxi whose planner finds no path\<close>

lemmas taxi_tick_defs = taxi_clockTick_def tick_arrival_def tick_known_fare_def bindP_def liftE_def
  len_path_def loc_index_def replan_def planPath_def Let_def

text \<open>
  Claim C8, at the input where the code departs from it. The planner reports that
  \<open>(5, 5)\<close> is unreachable by returning \<^verbatim>\<open>None\<close>, and the tick stores that value in
  \<^verbatim>\<open>_path\<close>. The tick of the replanning completes; the next tick raises \<^verbatim>\<open>TypeError\<close>
  at \<^verbatim>\<open>len(self._path)\<close>, after a failed drop-off as well as on the way to an allocated
  fare.
\<close>

theorem unreachable_plan_breaks_next_tick:
  "planPath (tmap ex_carrying) (0, 0) (5, 5) = Some (Inr None) \<and>
   taxi_clockTick ex_world ex_carrying = Some (Inr (ex_carrying\<lparr>path := None, account := 255\<rparr>, [])) \<and>
   taxi_clockTick ex_world (ex_carrying\<lparr>path := None, account := 255\<rparr>) = Some (Inl TypeError) \<and>
   taxi_clockTick ex_world ex_allocated = Some (Inr (ex_allocated\<lparr>path := None, account := 255\<rparr>, [])) \<and>
   taxi_clockTick ex_world (ex_allocated\<lparr>path := None, account := 255\<rparr>) = Some (Inl TypeError)"
  by (simp add: taxi_tick_defs ex_carrying_def ex_allocated_def ex_map_def ex_taxi_def ex_world_def
      rnd_eval)

section \<open>The path planner\<close>

lemma sqrt25: "sqrt 25 = 5"
  by (rule real_sqrt_unique) simp_all

lemma sqrt9: "sqrt 9 = 3"
  by (rule real_sqrt_unique) simp_all















lemma route_nodes:
  assumes "route m a b p"
  shows "map_of m a \<noteq> None"
proof -
  from assms have ip: "is_path m p" and hd: "hd p = a" by (simp_all add: route_def)
  then show ?thesis
  proof (cases p)
    case Nil
    then show ?thesis using ip by simp
  next
    case (Cons x xs)
    then show ?thesis using ip hd by (cases xs) (auto simp: is_edge_def split: option.splits)
  qed
qed

lemma is_path_last_node: "is_path m p \<Longrightarrow> map_of m (last p) \<noteq> None"
  by (induction m p rule: is_path.induct) auto






































































lemma sqrt16: "sqrt 16 = 4"
  by (rule real_sqrt_unique) simp_all

lemma sqrt4: "sqrt 4 = 2"
  by (rule real_sqrt_unique) simp_all

lemmas plan_defs = heappop_def py_get_def relax_def calculate_heuristic_def py_float_def bindE_def
  entry_less_def init_costs_def Let_def sqrt4 sqrt9 sqrt16 sqrt25





text \<open>
  Why the weights have to add up exactly: on \<open>ex_round\<close> every edge is at least as long
  as the straight line, and the stored weights of the two edges by way of \<open>(1, 0)\<close> add
  up to less than the stored weight of the direct edge. Their floating-point sum is the
  weight of the direct edge, though, so the planner does not prefer the way round and
  returns the direct edge.
\<close>

lemma ex_round_plan:
  "map_ok ex_round \<and> coords_ok ex_round \<and>
   planPath ex_round (0, 0) (2, 0) = Some (Inr (Some [(0, 0), (2, 0)])) \<and>
   is_path ex_round [(0, 0), (1, 0), (2, 0)] \<and>
   path_cost ex_round [(0, 0), (1, 0), (2, 0)] < path_cost ex_round [(0, 0), (2, 0)] \<and>
   py_add (Fin 1) (Fin (round64 (12 / 10))) = Fin (round64 (22 / 10))"
proof -
  have a: "map_ok ex_round \<and> coords_ok ex_round"
    by (simp add: map_ok_def coords_ok_def ex_round_def straight_line_def sqrt4 rnd_eval)
  have b: "planPath ex_round (0, 0) (2, 0) = Some (Inr (Some [(0, 0), (2, 0)]))"
    apply (simp add: planPath_def ex_round_def plan_defs rnd_eval)
    apply (subst astar_loop.simps, simp add: plan_defs rnd_eval)
    apply (subst astar_loop.simps, simp add: plan_defs rnd_eval)
    apply (subst astar_loop.simps, simp add: plan_defs rnd_eval)
    apply (subst build_path.simps, simp)
    apply (subst build_path.simps, simp)
    done
  have c: "is_path ex_round [(0, 0), (1, 0), (2, 0)] \<and>
     path_cost ex_round [(0, 0), (1, 0), (2, 0)] < path_cost ex_round [(0, 0), (2, 0)]"
    by (simp add: ex_round_def weight_def is_edge_def rnd_eval)
  have d: "py_add (Fin 1) (Fin (round64 (12 / 10))) = Fin (round64 (22 / 10))"
    by (simp add: rnd_eval)
  show ?thesis using a b c d by simp
qed

end
